theory Spec2Isabelle
  imports Complex_Main "HOL-Library.Word" "HOL-Library.Multiset"
begin

unbundle bit_operations_syntax

section \<open>Numbers\<close>

text \<open>
  Python floats are modelled as the real numbers: \<open>np.sqrt\<close> is \<open>sqrt\<close>, \<open>/\<close> is
  real division, \<open>float('inf')\<close> is the absence of a value.  Rounding, overflow and NaN
  are outside the model; every statement below is about the algorithms in exact
  arithmetic.
\<close>

section \<open>core/point.py\<close>

text \<open>
  \<^verbatim>\<open>class Point\<close>: the constructor takes \<open>x\<close>, \<open>y\<close> and \<open>name\<close>.  The fourth
  attribute, \<open>error\<close>, is set to the literal \<open>1\<close> by \<open>__init__\<close> and is never
  assigned again anywhere in the repository, so it is a function of the instance that
  is constantly \<open>1\<close>.
\<close>

record point =
  x :: real
  y :: real
  name :: string

definition Point :: "real \<Rightarrow> real \<Rightarrow> string \<Rightarrow> point" where
  "Point px py nm = \<lparr>x = px, y = py, name = nm\<rparr>"

definition error :: "point \<Rightarrow> real" where
  "error self = 1"

definition distance_to :: "point \<Rightarrow> point \<Rightarrow> real" where
  "distance_to self other =
     sqrt ((x self - x other)\<^sup>2 + (y self - y other)\<^sup>2) - error self"

definition distance_point_to_segment :: "point \<Rightarrow> point \<Rightarrow> point \<Rightarrow> real" where
  "distance_point_to_segment self a b =
     (let dx = x b - x a;
          dy = y b - y a
      in if dx = dy \<and> dy = 0 then distance_to self a
         else
           let t = max 0 (min 1 (((x self - x a) * dx + (y self - y a) * dy) / (dx * dx + dy * dy)));
               closest = Point (x a + t * dx) (y a + t * dy) ''''
           in distance_to self closest)"

text \<open>\<^verbatim>\<open>__eq__\<close> on two Points.\<close>

definition point_eq :: "point \<Rightarrow> point \<Rightarrow> bool" where
  "point_eq self other \<longleftrightarrow>
     \<bar>x self - x other\<bar> < 1 / 100 \<and> \<bar>y self - y other\<bar> < 1 / 100"

text \<open>
  \<^verbatim>\<open>__hash__\<close> returns \<^verbatim>\<open>hash((self.x, self.y))\<close>, the hash of a tuple of two floats,
  which is computed by the Python runtime (CPython 3.8 and later, 64-bit).  The hash
  of a float is the numeric hash of the language reference: for a non-negative
  rational \<open>m / n\<close> it is \<open>m * inverse n mod P\<close> with \<open>P = 2^61 - 1\<close>, negated for a
  negative number, and \<open>-1\<close> is replaced by \<open>-2\<close>.  A finite float is \<open>m / 2^k\<close> with
  \<open>k \<le> 1074\<close>, and the inverse of \<open>2^k\<close> modulo \<open>P\<close> is \<open>2^(61 - k mod 61)\<close>.  A real
  number that is not of this form is not a float and has no hash (\<open>None\<close>).
\<close>

definition hash_modulus :: int where
  "hash_modulus = 2 ^ 61 - 1"

fun dyadic_exponent :: "nat \<Rightarrow> nat \<Rightarrow> real \<Rightarrow> nat option" where
  "dyadic_exponent fuel k v =
     (if of_int \<lfloor>v\<rfloor> = v then Some k
      else if fuel = 0 then None
      else dyadic_exponent (fuel - 1) (k + 1) (2 * v))"

declare dyadic_exponent.simps [simp del]

definition hash_float :: "real \<Rightarrow> int option" where
  "hash_float v =
     (case dyadic_exponent 1074 0 \<bar>v\<bar> of
        None \<Rightarrow> None
      | Some k \<Rightarrow>
          let m = \<lfloor>\<bar>v\<bar> * 2 ^ k\<rfloor>;
              h = ((m mod hash_modulus) * 2 ^ ((61 - k mod 61) mod 61)) mod hash_modulus;
              h = (if v < 0 then - h else h)
          in Some (if h = - 1 then - 2 else h))"

text \<open>
  The hash of a tuple combines the hashes of its items on unsigned 64-bit integers:
  one round per item (add the item's hash times a constant, rotate left by 31 bits,
  multiply by a constant), then the length is mixed in.
\<close>

definition hash_lane :: "64 word \<Rightarrow> int \<Rightarrow> 64 word" where
  "hash_lane acc item_hash =
     (let lane = (word_of_int item_hash :: 64 word);
          acc = acc + lane * 14029467366897019727;
          acc = (push_bit 31 acc) OR (drop_bit 33 acc)
      in acc * 11400714785074694791)"

definition hash_tuple :: "int list \<Rightarrow> int" where
  "hash_tuple items =
     (let acc = fold (\<lambda>h acc. hash_lane acc h) items (2870177450012600261 :: 64 word);
          acc = acc + (word_of_nat (length items) XOR (2870177450012600261 XOR 3527539))
      in if acc = - 1 then 1546275796 else sint acc)"

text \<open>\<^verbatim>\<open>__hash__\<close>.\<close>

definition Point_hash :: "point \<Rightarrow> int option" where
  "Point_hash self =
     (case (hash_float (x self), hash_float (y self)) of
        (Some hx, Some hy) \<Rightarrow> Some (hash_tuple [hx, hy])
      | _ \<Rightarrow> None)"

section \<open>core/map.py\<close>

record Map =
  start_point :: point
  end_point :: point
  objects :: "point list"
  max_distance :: real
  survey_radius :: real

definition add_object :: "Map \<Rightarrow> point \<Rightarrow> Map" where
  "add_object self p = self\<lparr>objects := objects self @ [p]\<rparr>"

definition validate :: "Map \<Rightarrow> bool" where
  "validate self =
     (if point_eq (start_point self) (end_point self) then False
      else if max_distance self \<le> 0 then False
      else if survey_radius self < 0 then False
      else
        let direct_distance = distance_to (start_point self) (end_point self)
        in if direct_distance > max_distance self then False else True)"

section \<open>core/solver.py\<close>

text \<open>The accumulating loop of \<^verbatim>\<open>calculate_route_distance\<close>, left to right.\<close>

fun route_sum :: "real \<Rightarrow> point list \<Rightarrow> real" where
  "route_sum total_distance (a # b # rest) = route_sum (total_distance + distance_to a b) (b # rest)"
| "route_sum total_distance [a] = total_distance"
| "route_sum total_distance [] = total_distance"

definition calculate_route_distance :: "point list \<Rightarrow> real" where
  "calculate_route_distance route =
     (if length route < 2 then 0 else route_sum 0 route)"

text \<open>
  A Python \<^verbatim>\<open>set\<close> of Points is a list in iteration order.  The set looks an element
  up by \<^verbatim>\<open>hash((x, y))\<close> and then \<^verbatim>\<open>==\<close>; two Points with the same coordinates
  have the same hash and are equal, so they are one element.  Points with different
  coordinates are taken to be different elements (their hashes differ unless the hash
  collides).
\<close>

definition same_key :: "point \<Rightarrow> point \<Rightarrow> bool" where
  "same_key p q \<longleftrightarrow> x p = x q \<and> y p = y q"

definition set_add :: "point list \<Rightarrow> point \<Rightarrow> point list" where
  "set_add s p = (if list_ex (same_key p) s then s else s @ [p])"

definition set_remove :: "point list \<Rightarrow> point \<Rightarrow> point list" where
  "set_remove s p = filter (\<lambda>q. \<not> same_key p q) s"

definition py_set :: "point list \<Rightarrow> point list" where
  "py_set ps = fold (\<lambda>p s. set_add s p) ps []"

text \<open>The inner loop of \<^verbatim>\<open>get_surveyed_objects\<close>: some consecutive pair is close enough.\<close>

definition near_some_segment :: "Map \<Rightarrow> point list \<Rightarrow> point \<Rightarrow> bool" where
  "near_some_segment self route obj =
     list_ex (\<lambda>i. distance_point_to_segment obj (route ! i) (route ! (i + 1)) \<le> survey_radius self)
       [0 ..< length route - 1]"

fun surveyed_loop :: "Map \<Rightarrow> point list \<Rightarrow> point list \<Rightarrow> point list \<Rightarrow> point list" where
  "surveyed_loop self route surveyed [] = surveyed"
| "surveyed_loop self route surveyed (obj # objs) =
     surveyed_loop self route
       (if near_some_segment self route obj then set_add surveyed obj else surveyed) objs"

definition get_surveyed_objects :: "Map \<Rightarrow> point list \<Rightarrow> point list" where
  "get_surveyed_objects self route =
     surveyed_loop self ([start_point self] @ route @ [end_point self]) [] (objects self)"

section \<open>core/greedy.py\<close>

text \<open>The search for the nearest unsurveyed object; \<open>None\<close> is \<^verbatim>\<open>float('inf')\<close>.\<close>

fun nearest_loop :: "point \<Rightarrow> point list \<Rightarrow> point option \<Rightarrow> real option \<Rightarrow> point option" where
  "nearest_loop cur [] nearest_object min_distance = nearest_object"
| "nearest_loop cur (obj # objs) nearest_object min_distance =
     (let dist = distance_to cur obj
      in if (case min_distance of None \<Rightarrow> True | Some md \<Rightarrow> dist < md)
         then nearest_loop cur objs (Some obj) (Some dist)
         else nearest_loop cur objs nearest_object min_distance)"

definition find_intersection_with_circle :: "point \<Rightarrow> point \<Rightarrow> point \<Rightarrow> real \<Rightarrow> point option" where
  "find_intersection_with_circle start target center radius =
     (let dx = x target - x start;
          dy = y target - y start;
          dist = sqrt (dx\<^sup>2 + dy\<^sup>2)
      in if dist = 0 then Some start
         else
           let dx = dx / dist;
               dy = dy / dist;
               dist_to_center = distance_to start center
           in if dist_to_center \<le> radius then Some start
              else
                let projection = (x center - x start) * dx + (y center - y start) * dy
                in if projection \<le> 0 then None
                   else
                     let closest_x = x start + projection * dx;
                         closest_y = y start + projection * dy;
                         dist_to_line = sqrt ((x center - closest_x)\<^sup>2 + (y center - closest_y)\<^sup>2)
                     in if dist_to_line > radius then None
                        else
                          let offset = sqrt (radius\<^sup>2 - dist_to_line\<^sup>2);
                              intersection_x = closest_x - offset * dx;
                              intersection_y = closest_y - offset * dy
                          in Some (Point intersection_x intersection_y ''''))"

definition point_to_line_distance :: "point \<Rightarrow> point \<Rightarrow> point \<Rightarrow> real" where
  "point_to_line_distance p line_start line_end =
     (let x1 = x line_start; y1 = y line_start;
          x2 = x line_end; y2 = y line_end;
          x0 = x p; y0 = y p;
          line_length = distance_to line_start line_end
      in if line_length = 0 then distance_to p line_start
         else
           let t = max 0 (min 1 (((x0 - x1) * (x2 - x1) + (y0 - y1) * (y2 - y1)) / line_length\<^sup>2));
               nearest_x = x1 + t * (x2 - x1);
               nearest_y = y1 + t * (y2 - y1)
           in sqrt ((x0 - nearest_x)\<^sup>2 + (y0 - nearest_y)\<^sup>2))"

text \<open>The local variables of \<^verbatim>\<open>GreedySolver.solve\<close>.\<close>

record greedy_state =
  st_route :: "point list"
  st_surveyed :: "point list"
  st_current :: point
  st_length :: real
  st_unsurveyed :: "point list"

definition loop_guard :: "Map \<Rightarrow> greedy_state \<Rightarrow> bool" where
  "loop_guard self s \<longleftrightarrow>
     st_length s + distance_to (st_current s) (end_point self) \<le> max_distance self
     \<and> st_unsurveyed s \<noteq> []"

text \<open>
  One pass through the body of the \<^verbatim>\<open>while\<close> loop: \<open>None\<close> is \<^verbatim>\<open>break\<close>, \<open>Some\<close> the
  state at the next test of the loop condition (after \<^verbatim>\<open>continue\<close> or at the end
  of the body).
\<close>

definition greedy_step :: "Map \<Rightarrow> greedy_state \<Rightarrow> greedy_state option" where
  "greedy_step self s =
     (case nearest_loop (st_current s) (st_unsurveyed s) None None of
        None \<Rightarrow> None
      | Some nearest_object \<Rightarrow>
          (case find_intersection_with_circle (st_current s) nearest_object nearest_object
                  (survey_radius self) of
             None \<Rightarrow> Some (s\<lparr>st_unsurveyed := set_remove (st_unsurveyed s) nearest_object\<rparr>)
           | Some intersection \<Rightarrow>
               let new_route_length = st_length s + distance_to (st_current s) intersection;
                   distance_to_end = distance_to intersection (end_point self);
                   total_needed = new_route_length + distance_to_end
               in if total_needed > max_distance self then None
                  else
                    let objects_to_survey =
                          filter (\<lambda>obj. distance_to intersection obj \<le> survey_radius self)
                            (st_unsurveyed s)
                    in Some \<lparr>st_route = st_route s @ [intersection],
                             st_surveyed = fold (\<lambda>obj sv. set_add sv obj) objects_to_survey (st_surveyed s),
                             st_current = intersection,
                             st_length = new_route_length,
                             st_unsurveyed = fold (\<lambda>obj us. set_remove us obj) objects_to_survey (st_unsurveyed s)\<rparr>))"

text \<open>The \<^verbatim>\<open>while\<close> loop; \<open>None\<close> means that it never leaves.\<close>

partial_function (option) greedy_loop :: "Map \<Rightarrow> greedy_state \<Rightarrow> greedy_state option" where
  "greedy_loop self s =
     (if loop_guard self s
      then (case greedy_step self s of None \<Rightarrow> Some s | Some s' \<Rightarrow> greedy_loop self s')
      else Some s)"

definition greedy_initial_state :: "Map \<Rightarrow> point list \<Rightarrow> greedy_state" where
  "greedy_initial_state self unsurveyed =
     \<lparr>st_route = [start_point self], st_surveyed = [], st_current = start_point self,
      st_length = 0, st_unsurveyed = unsurveyed\<rparr>"

definition greedy_finish :: "Map \<Rightarrow> greedy_state \<Rightarrow> point list \<times> point list \<times> real" where
  "greedy_finish self s =
     (let surveyed =
            (if st_unsurveyed s \<noteq> []
                \<and> st_length s + distance_to (st_current s) (end_point self) \<le> max_distance self
             then fold (\<lambda>obj sv.
                     if point_to_line_distance obj (st_current s) (end_point self) \<le> survey_radius self
                     then set_add sv obj else sv) (st_unsurveyed s) (st_surveyed s)
             else st_surveyed s);
          route = st_route s @ [end_point self];
          total_distance = calculate_route_distance route
      in (route, surveyed, total_distance))"

text \<open>
  \<^verbatim>\<open>GreedySolver.solve\<close>, with the iteration order of \<^verbatim>\<open>set(self.map_data.objects)\<close>
  as an argument: Python does not fix that order.
\<close>

definition greedy_solve_from :: "Map \<Rightarrow> point list \<Rightarrow> (point list \<times> point list \<times> real) option" where
  "greedy_solve_from self unsurveyed =
     map_option (greedy_finish self) (greedy_loop self (greedy_initial_state self unsurveyed))"

definition GreedySolver_solve :: "Map \<Rightarrow> (point list \<times> point list \<times> real) option" where
  "GreedySolver_solve self = greedy_solve_from self (py_set (objects self))"

section \<open>core/heuristic.py\<close>

definition max_iterations :: nat where
  "max_iterations = 50"

text \<open>\<^verbatim>\<open>min(remaining_objects, key=...)\<close>: the first element with the least key.\<close>

fun min_by_key :: "(point \<Rightarrow> real) \<Rightarrow> point \<Rightarrow> point list \<Rightarrow> point" where
  "min_by_key key best [] = best"
| "min_by_key key best (obj # objs) =
     min_by_key key (if key obj < key best then obj else best) objs"

text \<open>
  \<^verbatim>\<open>list.remove(value)\<close>: deletes the first element that is \<^verbatim>\<open>==\<close> to the value;
  \<open>None\<close> is the \<^verbatim>\<open>ValueError\<close> raised when there is none.
\<close>

fun list_remove :: "point list \<Rightarrow> point \<Rightarrow> point list option" where
  "list_remove [] v = None"
| "list_remove (q # qs) v =
     (if point_eq q v then Some qs else map_option ((#) q) (list_remove qs v))"

lemma list_remove_length:
  "list_remove qs v = Some qs' \<Longrightarrow> length qs' < length qs"
  by (induction qs arbitrary: qs') (auto split: if_splits)

function initial_route_loop :: "point list \<Rightarrow> point list \<Rightarrow> point \<Rightarrow> point list option" where
  "initial_route_loop route remaining_objects current_position =
     (if remaining_objects \<noteq> []
      then
        let closest_obj = min_by_key (\<lambda>obj. distance_to current_position obj)
                            (hd remaining_objects) (tl remaining_objects)
        in (case list_remove remaining_objects closest_obj of
              None \<Rightarrow> None
            | Some remaining \<Rightarrow> initial_route_loop (route @ [closest_obj]) remaining closest_obj)
      else Some route)"
  by pat_completeness auto
termination
  by (relation "measure (\<lambda>(route, remaining, cur). length remaining)")
     (auto dest: list_remove_length)

declare initial_route_loop.simps [simp del]

definition greedy_initial_route :: "Map \<Rightarrow> point list option" where
  "greedy_initial_route self =
     map_option (\<lambda>route. route @ [end_point self])
       (initial_route_loop [start_point self] (objects self) (start_point self))"

text \<open>
  The pairs \<open>(i, j)\<close> of the two nested \<^verbatim>\<open>for\<close> statements of \<^verbatim>\<open>_local_search_2opt\<close>, in
  the order in which they are visited, and the route with the slice \<open>i..j\<close> reversed.
\<close>

definition two_opt_pairs :: "nat \<Rightarrow> (nat \<times> nat) list" where
  "two_opt_pairs n = concat (map (\<lambda>i. map (\<lambda>j. (i, j)) [i + 1 ..< n - 1]) [1 ..< n - 2])"

definition reversed_slice :: "point list \<Rightarrow> nat \<Rightarrow> nat \<Rightarrow> point list" where
  "reversed_slice route i j =
     take i route @ rev (drop i (take (j + 1) route)) @ drop (j + 1) route"

definition first_improvement :: "point list \<Rightarrow> real \<Rightarrow> point list option" where
  "first_improvement route best_distance =
     (case find (\<lambda>(i, j). calculate_route_distance (reversed_slice route i j) < best_distance)
             (two_opt_pairs (length route)) of
        None \<Rightarrow> None
      | Some (i, j) \<Rightarrow> Some (reversed_slice route i j))"

lemma two_opt_pairs_less:
  "(i, j) \<in> set (two_opt_pairs n) \<Longrightarrow> i < j"
  by (auto simp: two_opt_pairs_def)

lemma mset_reversed_slice:
  assumes "i < j"
  shows "mset (reversed_slice route i j) = mset route"
proof -
  have "take i route = take i (take (j + 1) route)"
    using assms by (simp add: min_def)
  then have "mset (take i route) + mset (drop i (take (j + 1) route)) + mset (drop (j + 1) route)
        = mset (take i (take (j + 1) route) @ drop i (take (j + 1) route)) + mset (drop (j + 1) route)"
    by (simp only: mset_append)
  also have "\<dots> = mset route"
    by (simp only: append_take_drop_id flip: mset_append)
  finally show ?thesis
    by (simp add: reversed_slice_def add.assoc)
qed

lemma first_improvement_Some:
  assumes "first_improvement route best_distance = Some new_route"
  shows "mset new_route = mset route \<and> calculate_route_distance new_route < best_distance"
proof -
  from assms obtain i j where
    f: "find (\<lambda>(i, j). calculate_route_distance (reversed_slice route i j) < best_distance)
          (two_opt_pairs (length route)) = Some (i, j)"
    and n: "new_route = reversed_slice route i j"
    by (auto simp: first_improvement_def split: option.splits)
  from f have "calculate_route_distance (reversed_slice route i j) < best_distance"
    by (auto simp: find_Some_iff)
  moreover from f have "(i, j) \<in> set (two_opt_pairs (length route))"
    by (auto simp: find_Some_iff in_set_conv_nth)
  then have "i < j" by (rule two_opt_pairs_less)
  ultimately show ?thesis using n
    by (simp add: mset_reversed_slice)
qed

text \<open>
  The \<^verbatim>\<open>while improved\<close> loop.  \<^verbatim>\<open>best_route\<close> and \<^verbatim>\<open>route\<close> are assigned together,
  so one argument stands for both.
\<close>

function local_search_loop :: "point list \<Rightarrow> real \<Rightarrow> point list" where
  "local_search_loop route best_distance =
     (case first_improvement route best_distance of
        None \<Rightarrow> route
      | Some new_route \<Rightarrow> local_search_loop new_route (calculate_route_distance new_route))"
  by pat_completeness auto
termination
proof (relation "measure (\<lambda>(route, best_distance).
         card {p. mset p = mset route \<and> calculate_route_distance p < best_distance})")
  show "wf (measure (\<lambda>(route, best_distance).
         card {p. mset p = mset route \<and> calculate_route_distance p < best_distance}))"
    by simp
next
  fix route :: "point list" and best_distance :: real and new_route :: "point list"
  assume "first_improvement route best_distance = Some new_route"
  then have m: "mset new_route = mset route"
    and d: "calculate_route_distance new_route < best_distance"
    by (simp_all add: first_improvement_Some)
  let ?A = "{p. mset p = mset new_route \<and> calculate_route_distance p < calculate_route_distance new_route}"
  let ?B = "{p. mset p = mset route \<and> calculate_route_distance p < best_distance}"
  have fin: "finite ?B"
    by (rule finite_subset [where B = "{p. mset p = mset route}"]) (auto simp: mset_eq_finite)
  have "?A \<subseteq> ?B" using m d by auto
  moreover have "new_route \<in> ?B" "new_route \<notin> ?A" using m d by auto
  ultimately have "?A \<subset> ?B" by blast
  with fin have "card ?A < card ?B" by (rule psubset_card_mono)
  then show "((new_route, calculate_route_distance new_route), (route, best_distance))
        \<in> measure (\<lambda>(route, best_distance).
             card {p. mset p = mset route \<and> calculate_route_distance p < best_distance})"
    by simp
qed

declare local_search_loop.simps [simp del]

definition local_search_2opt :: "point list \<Rightarrow> point list" where
  "local_search_2opt route = local_search_loop route (calculate_route_distance route)"

definition project_point_on_segment :: "point \<Rightarrow> point \<Rightarrow> point \<Rightarrow> point" where
  "project_point_on_segment p seg_start seg_end =
     (let seg_vec_x = x seg_end - x seg_start;
          seg_vec_y = y seg_end - y seg_start;
          point_vec_x = x p - x seg_start;
          point_vec_y = y p - y seg_start;
          seg_len_sq = seg_vec_x\<^sup>2 + seg_vec_y\<^sup>2
      in if seg_len_sq = 0 then seg_start
         else
           let t = max 0 (min 1 ((point_vec_x * seg_vec_x + point_vec_y * seg_vec_y) / seg_len_sq));
               proj_x = x seg_start + t * seg_vec_x;
               proj_y = y seg_start + t * seg_vec_y
           in Point proj_x proj_y '''')"

definition optimize_point_position :: "Map \<Rightarrow> point \<Rightarrow> point \<Rightarrow> point \<Rightarrow> point" where
  "optimize_point_position self obj_point prev_point next_point =
     (let projection = project_point_on_segment obj_point prev_point next_point;
          to_proj_x = x projection - x obj_point;
          to_proj_y = y projection - y obj_point;
          dist_to_proj = sqrt (to_proj_x\<^sup>2 + to_proj_y\<^sup>2)
      in if dist_to_proj = 0 then obj_point
         else
           let to_proj_x = to_proj_x / dist_to_proj;
               to_proj_y = to_proj_y / dist_to_proj
           in if dist_to_proj \<le> survey_radius self then projection
              else
                let new_x = x obj_point + to_proj_x * survey_radius self;
                    new_y = y obj_point + to_proj_y * survey_radius self
                in Point new_x new_y '''')"

text \<open>
  The body of the \<^verbatim>\<open>for i\<close> loop of \<^verbatim>\<open>_geometric_optimization\<close>: it reads the
  route it was given and writes the copy.
\<close>

definition geometric_step :: "Map \<Rightarrow> point list \<Rightarrow> nat \<Rightarrow> point list \<Rightarrow> point list" where
  "geometric_step self route i optimized_route =
     (case find (\<lambda>obj. distance_to (route ! i) obj \<le> survey_radius self) (objects self) of
        None \<Rightarrow> optimized_route
      | Some original_obj \<Rightarrow>
          let new_position = optimize_point_position self original_obj (route ! (i - 1)) (route ! (i + 1));
              old_dist = distance_to (route ! (i - 1)) (route ! i) + distance_to (route ! i) (route ! (i + 1));
              new_dist = distance_to (route ! (i - 1)) new_position + distance_to new_position (route ! (i + 1))
          in if new_dist < old_dist then optimized_route[i := new_position] else optimized_route)"

definition geometric_optimization :: "Map \<Rightarrow> point list \<Rightarrow> point list" where
  "geometric_optimization self route =
     fold (geometric_step self route) [1 ..< length route - 1] route"

definition remove_step :: "point list \<Rightarrow> nat \<Rightarrow> point list \<times> real \<Rightarrow> point list \<times> real" where
  "remove_step route i state =
     (let temp_route = take i route @ drop (i + 1) route;
          temp_distance = calculate_route_distance temp_route
      in if temp_distance < snd state then (temp_route, temp_distance) else state)"

definition remove_farthest_point :: "Map \<Rightarrow> point list \<Rightarrow> point list" where
  "remove_farthest_point self route =
     (if length route \<le> 3 then [start_point self, end_point self]
      else fst (fold (remove_step route) [1 ..< length route - 1]
                  (route, calculate_route_distance route)))"

function heuristic_loop :: "Map \<Rightarrow> nat \<Rightarrow> point list \<Rightarrow> point list" where
  "heuristic_loop self iteration route =
     (if iteration < max_iterations
      then
        let route = local_search_2opt route;
            route = geometric_optimization self route;
            current_distance = calculate_route_distance route
        in if current_distance \<le> max_distance self then route
           else
             let route = remove_farthest_point self route
             in if length route \<le> 2 then route
                else heuristic_loop self (iteration + 1) route
      else route)"
  by pat_completeness auto
termination
  by (relation "measure (\<lambda>(self, iteration, route). max_iterations - iteration)") auto

declare heuristic_loop.simps [simp del]

definition HeuristicSolver_solve :: "Map \<Rightarrow> (point list \<times> point list \<times> real) option" where
  "HeuristicSolver_solve self =
     (case greedy_initial_route self of
        None \<Rightarrow> None
      | Some route \<Rightarrow>
          let route = heuristic_loop self 0 route;
              surveyed_objects = get_surveyed_objects self route;
              total_distance = calculate_route_distance route
          in Some (route, surveyed_objects, total_distance))"

section \<open>Concrete instances\<close>

definition map_direct :: Map where
  "map_direct = \<lparr>start_point = Point 0 0 ''start'', end_point = Point 3 4 ''end'', objects = [],
                  max_distance = 9 / 2, survey_radius = 0\<rparr>"

definition map_no_objects :: Map where
  "map_no_objects = \<lparr>start_point = Point 0 0 ''start'', end_point = Point 10 0 ''end'',
                      objects = [], max_distance = 20, survey_radius = 3\<rparr>"

definition origin_point :: point where
  "origin_point = Point 0 0 ''a''"

definition nearby_point :: point where
  "nearby_point = Point (1 / 128) 0 ''b''"

definition map_on_axis :: Map where
  "map_on_axis = \<lparr>start_point = Point 0 0 ''start'', end_point = Point 10 0 ''end'',
                   objects = [Point 5 0 ''obj''], max_distance = 20, survey_radius = 3\<rparr>"

definition map_negative_radius :: Map where
  "map_negative_radius = \<lparr>start_point = Point 0 0 ''start'', end_point = Point 10 0 ''end'',
                           objects = [Point 0 0 ''obj''], max_distance = 20, survey_radius = - 5\<rparr>"

text \<open>
  A map on which the heuristic solver runs until the iteration cap: two objects near
  the corner of the path from the start to the end.
\<close>

definition cyc_start :: point where
  "cyc_start = Point (9 / 5) (- 3 / 4) ''start''"

definition cyc_end :: point where "cyc_end = Point (4 / 5) 0 ''end''"

definition cyc_far :: point where "cyc_far = Point 0 (3 / 5) ''far''"

definition cyc_near :: point where "cyc_near = Point 0 0 ''near''"

definition cyc_moved :: point where "cyc_moved = Point 0 0 ''''"

definition map_cycle :: Map where
  "map_cycle = \<lparr>start_point = cyc_start, end_point = cyc_end, objects = [cyc_far, cyc_near],
     max_distance = 1 / 2, survey_radius = 1\<rparr>"

definition route_low :: "point list" where
  "route_low = [cyc_start, cyc_near, cyc_far, cyc_end]"

definition route_back :: "point list" where
  "route_back = [cyc_start, cyc_moved, cyc_far, cyc_end]"

definition route_high :: "point list" where
  "route_high = [cyc_start, cyc_far, cyc_moved, cyc_end]"

text \<open>
  A family of maps on the horizontal axis that differ only in the survey radius.
\<close>

definition mono_start :: point where "mono_start = Point 0 0 ''start''"

definition mono_end :: point where "mono_end = Point 2 0 ''end''"

definition mono_far :: point where "mono_far = Point (- 5) 0 ''far''"

definition mono_near :: point where "mono_near = Point (- 3) 0 ''near''"

definition map_mono :: "real \<Rightarrow> Map" where
  "map_mono r = \<lparr>start_point = mono_start, end_point = mono_end, objects = [mono_far, mono_near],
     max_distance = 5, survey_radius = r\<rparr>"

text \<open>
  A family of maps with three objects on the horizontal axis that differ only in the
  survey radius, and the states of the greedy loop after its first pass for the radii
  2 and 1.
\<close>

definition rr_start :: point where "rr_start = Point 0 0 ''start''"

definition rr_end :: point where "rr_end = Point 2 (3 / 2) ''end''"

definition rr_a :: point where "rr_a = Point 3 0 ''a''"

definition rr_b :: point where "rr_b = Point 4 0 ''b''"

definition rr_c :: point where "rr_c = Point (- (7 / 2)) 0 ''c''"

definition map_rerun :: "real \<Rightarrow> Map" where
  "map_rerun r = \<lparr>start_point = rr_start, end_point = rr_end, objects = [rr_a, rr_b, rr_c],
     max_distance = 2, survey_radius = r\<rparr>"

definition rr_wide_1 :: greedy_state where
  "rr_wide_1 = \<lparr>st_route = [rr_start, rr_start], st_surveyed = [rr_a], st_current = rr_start,
     st_length = - 1, st_unsurveyed = [rr_b, rr_c]\<rparr>"

definition rr_narrow_1 :: greedy_state where
  "rr_narrow_1 = \<lparr>st_route = [rr_start, Point 2 0 ''''], st_surveyed = [rr_a, rr_b],
     st_current = Point 2 0 '''', st_length = 1, st_unsurveyed = [rr_c]\<rparr>"

text \<open>
  A map on which the greedy solver leaves its loop with an object unsurveyed and tests
  it against the final leg: the object lies on the axis beyond the end point.
\<close>

definition leg_start :: point where "leg_start = Point 0 0 ''start''"

definition leg_end :: point where "leg_end = Point 2 0 ''end''"

definition leg_object :: point where "leg_object = Point (15 / 4) 0 ''obj''"

definition map_leg :: Map where
  "map_leg = \<lparr>start_point = leg_start, end_point = leg_end, objects = [leg_object],
     max_distance = 5 / 4, survey_radius = 1\<rparr>"

section \<open>Invariants\<close>

text \<open>
  What the greedy loop maintains: the route starts at the start point and ends at the
  current position, the accumulated length is the distance of the route so far, and
  the end point can still be reached within the budget.
\<close>

definition greedy_invariant :: "Map \<Rightarrow> greedy_state \<Rightarrow> bool" where
  "greedy_invariant m s \<longleftrightarrow>
     st_route s \<noteq> [] \<and> hd (st_route s) = start_point m \<and> last (st_route s) = st_current s
     \<and> st_length s = route_sum 0 (st_route s)
     \<and> st_length s + distance_to (st_current s) (end_point m) \<le> max_distance m"

text \<open>The states of the greedy loop on \<open>map_negative_radius\<close> from which it never leaves.\<close>

definition stuck_state :: "greedy_state \<Rightarrow> bool" where
  "stuck_state s \<longleftrightarrow>
     st_current s = Point 0 0 ''start'' \<and> st_unsurveyed s = [Point 0 0 ''obj''] \<and> st_length s \<le> 0"

text \<open>A route from the start point to the end point.\<close>

definition route_ends :: "Map \<Rightarrow> point list \<Rightarrow> bool" where
  "route_ends m route \<longleftrightarrow>
     2 \<le> length route \<and> hd route = start_point m \<and> last route = end_point m"

section \<open>Auxiliary facts\<close>

lemma sqrt_rat: "0 \<le> r \<Longrightarrow> r * r = q \<Longrightarrow> sqrt q = r"
  using real_sqrt_abs2 [of r] by auto

lemma sqrt_4: "sqrt 4 = 2"
  by (rule sqrt_rat) simp_all

lemma sqrt_9: "sqrt 9 = 3"
  by (rule sqrt_rat) simp_all

lemma sqrt_25: "sqrt 25 = 5"
  by (rule sqrt_rat) simp_all

lemma sqrt_64: "sqrt 64 = 8"
  by (rule sqrt_rat) simp_all

lemma sqrt_100: "sqrt 100 = 10"
  by (rule sqrt_rat) simp_all

lemma route_distance_pair:
  "calculate_route_distance [a, b] = distance_to a b"
  by (simp add: calculate_route_distance_def)

section \<open>Map.validate\<close>

text \<open>
  Claim C3, as it is written: \<open>validate\<close> is true exactly when start and end differ,
  the budget is positive, the radius is not negative and the plain Euclidean distance
  from start to end is within the budget.  It fails for a map whose end is at
  Euclidean distance 5 with budget 4.5: \<open>validate\<close> accepts it.
\<close>

theorem validate_plain_distance_counterexample:
  "\<not> (validate map_direct \<longleftrightarrow>
       (\<not> point_eq (start_point map_direct) (end_point map_direct)
        \<and> max_distance map_direct > 0
        \<and> survey_radius map_direct \<ge> 0
        \<and> sqrt ((x (start_point map_direct) - x (end_point map_direct))\<^sup>2
               + (y (start_point map_direct) - y (end_point map_direct))\<^sup>2)
            \<le> max_distance map_direct))"
  by (simp add: validate_def map_direct_def point_eq_def Point_def distance_to_def error_def sqrt_25)

text \<open>
  Claim C3, amended: \<open>validate\<close> is a total boolean function, and it is true exactly
  when start and end differ under Point equality, the budget is positive, the radius
  is not negative, and the distance that \<open>distance_to\<close> computes from start to end,
  the Euclidean distance minus the error 1, is within the budget.
\<close>

theorem validate_iff:
  "validate m \<longleftrightarrow>
     (\<not> point_eq (start_point m) (end_point m)
      \<and> max_distance m > 0
      \<and> survey_radius m \<ge> 0
      \<and> sqrt ((x (start_point m) - x (end_point m))\<^sup>2 + (y (start_point m) - y (end_point m))\<^sup>2) - 1
          \<le> max_distance m)"
  by (auto simp add: validate_def distance_to_def error_def Let_def)

section \<open>Point equality and hashing\<close>

lemma hash_float_zero: "hash_float 0 = Some 0"
  by (simp add: hash_float_def dyadic_exponent.simps hash_modulus_def)

lemma dyadic_exponent_128: "dyadic_exponent 1074 0 (1 / 128) = Some 7"
  by (simp add: dyadic_exponent.simps)

lemma hash_float_128: "hash_float (1 / 128) = Some 18014398509481984"
  by (simp add: hash_float_def dyadic_exponent_128 hash_modulus_def)

lemma hash_tuple_origin: "hash_tuple [0, 0] = - 8458139203682520985"
  by (simp add: hash_tuple_def hash_lane_def)

lemma hash_tuple_nearby: "hash_tuple [18014398509481984, 0] = - 6170409353532960194"
  by (simp add: hash_tuple_def hash_lane_def)

text \<open>
  Claim C4, as it is written: two Points that are equal have the same hash.  The
  Points \<open>(0, 0)\<close> and \<open>(0.0078125, 0)\<close> are equal, and their hashes differ.
\<close>

theorem hash_consistency_counterexample:
  "\<not> (point_eq origin_point nearby_point \<longrightarrow> Point_hash origin_point = Point_hash nearby_point)"
  by (simp add: point_eq_def Point_hash_def origin_point_def nearby_point_def Point_def
      hash_float_zero hash_float_128 hash_tuple_origin hash_tuple_nearby)

text \<open>
  Claim C4, amended: Point equality is coordinate proximity within 0.01 in each
  coordinate, the hash is the hash of the exact pair of coordinates, and neither
  depends on the name (nor reads the error); two Points with the same coordinates are
  equal and have the same hash.
\<close>

theorem eq_and_hash_by_coordinates:
  "(point_eq a b \<longleftrightarrow> \<bar>x a - x b\<bar> < 1 / 100 \<and> \<bar>y a - y b\<bar> < 1 / 100)
   \<and> point_eq (a\<lparr>name := n\<rparr>) b = point_eq a b
   \<and> point_eq a (b\<lparr>name := n\<rparr>) = point_eq a b
   \<and> Point_hash (a\<lparr>name := n\<rparr>) = Point_hash a
   \<and> (x a = x b \<and> y a = y b \<longrightarrow> point_eq a b \<and> Point_hash a = Point_hash b)"
  by (simp add: point_eq_def Point_hash_def)

theorem eq_and_hash_by_coordinates_witness:
  "x origin_point = x (origin_point\<lparr>name := ''c''\<rparr>) \<and> y origin_point = y (origin_point\<lparr>name := ''c''\<rparr>)
   \<and> point_eq origin_point (origin_point\<lparr>name := ''c''\<rparr>)
   \<and> Point_hash origin_point = Point_hash (origin_point\<lparr>name := ''c''\<rparr>)"
proof -
  have c: "x origin_point = x (origin_point\<lparr>name := ''c''\<rparr>)
      \<and> y origin_point = y (origin_point\<lparr>name := ''c''\<rparr>)"
    by simp
  with eq_and_hash_by_coordinates [of origin_point "origin_point\<lparr>name := ''c''\<rparr>" "''c''"]
  show ?thesis by blast
qed

section \<open>Point.distance_to\<close>

text \<open>
  Claim C10: every Point is constructed with error 1, so the distance from a Point to
  itself is \<open>-1\<close>, the distance between two Points whose Euclidean separation is below
  1 is negative, and the route through \<open>(0, 0)\<close>, \<open>(0.5, 0)\<close> and \<open>(1, 0)\<close> has the
  negative total distance \<open>-1\<close>.
\<close>

theorem distance_to_negative:
  "error (Point px py nm) = 1
   \<and> distance_to p p = - 1
   \<and> (sqrt ((x a - x b)\<^sup>2 + (y a - y b)\<^sup>2) < 1 \<longrightarrow> distance_to a b < 0)
   \<and> calculate_route_distance [Point 0 0 ''a'', Point (1 / 2) 0 ''b'', Point 1 0 ''c''] = - 1"
  by (simp add: distance_to_def error_def calculate_route_distance_def Point_def)

theorem distance_to_negative_witness:
  "sqrt ((x (Point 0 0 ''a'') - x (Point (1 / 2) 0 ''b''))\<^sup>2
       + (y (Point 0 0 ''a'') - y (Point (1 / 2) 0 ''b''))\<^sup>2) < 1
   \<and> distance_to (Point 0 0 ''a'') (Point (1 / 2) 0 ''b'') < 0"
  using distance_to_negative [of 0 0 "''a''" "Point 0 0 ''a''" "Point 0 0 ''a''" "Point (1 / 2) 0 ''b''"]
  by (simp add: Point_def)

section \<open>Maps without objects\<close>

text \<open>
  Claim C7: for a map that passes \<open>validate\<close> and has no objects, both solvers return
  the route \<open>[start, end]\<close>, an empty surveyed set and the total distance
  \<open>distance_to start end\<close>.
\<close>

theorem solve_without_objects:
  assumes "validate m" and "objects m = []"
  shows "GreedySolver_solve m
           = Some ([start_point m, end_point m], [], distance_to (start_point m) (end_point m))
         \<and> HeuristicSolver_solve m
           = Some ([start_point m, end_point m], [], distance_to (start_point m) (end_point m))"
proof -
  have v: "distance_to (start_point m) (end_point m) \<le> max_distance m"
    using assms(1) by (auto simp: validate_def Let_def split: if_splits)
  have g: "greedy_loop m (greedy_initial_state m []) = Some (greedy_initial_state m [])"
    by (subst greedy_loop.simps) (simp add: loop_guard_def greedy_initial_state_def)
  have G: "GreedySolver_solve m
      = Some ([start_point m, end_point m], [], distance_to (start_point m) (end_point m))"
    using assms(2) g
    by (simp add: GreedySolver_solve_def greedy_solve_from_def py_set_def greedy_finish_def
        greedy_initial_state_def route_distance_pair)
  have i: "greedy_initial_route m = Some [start_point m, end_point m]"
    using assms(2) by (simp add: greedy_initial_route_def initial_route_loop.simps)
  have f: "first_improvement [start_point m, end_point m] d = None" for d
    by (simp add: first_improvement_def two_opt_pairs_def)
  have l: "local_search_2opt [start_point m, end_point m] = [start_point m, end_point m]"
    by (simp add: local_search_2opt_def local_search_loop.simps f)
  have geo: "geometric_optimization m [start_point m, end_point m] = [start_point m, end_point m]"
    by (simp add: geometric_optimization_def)
  have h: "heuristic_loop m 0 [start_point m, end_point m] = [start_point m, end_point m]"
    using v by (subst heuristic_loop.simps) (simp add: l geo route_distance_pair max_iterations_def)
  have s: "get_surveyed_objects m r = []" for r
    using assms(2) by (simp add: get_surveyed_objects_def)
  have H: "HeuristicSolver_solve m
      = Some ([start_point m, end_point m], [], distance_to (start_point m) (end_point m))"
    by (simp add: HeuristicSolver_solve_def i h s route_distance_pair)
  from G H show ?thesis by simp
qed

theorem solve_without_objects_witness:
  "validate map_no_objects \<and> objects map_no_objects = []
   \<and> GreedySolver_solve map_no_objects = Some ([Point 0 0 ''start'', Point 10 0 ''end''], [], 9)
   \<and> HeuristicSolver_solve map_no_objects = Some ([Point 0 0 ''start'', Point 10 0 ''end''], [], 9)"
proof -
  have v: "validate map_no_objects"
    by (simp add: validate_def map_no_objects_def point_eq_def Point_def distance_to_def error_def sqrt_100)
  have o: "objects map_no_objects = []"
    by (simp add: map_no_objects_def)
  have d: "distance_to (start_point map_no_objects) (end_point map_no_objects) = 9"
    by (simp add: map_no_objects_def Point_def distance_to_def error_def sqrt_100)
  from solve_without_objects [OF v o] v o d show ?thesis
    by (simp add: map_no_objects_def)
qed

section \<open>The greedy loop\<close>


lemma intersection_within_radius:
  assumes f: "find_intersection_with_circle cur n n r = Some entry"
    and r: "- 1 \<le> r"
  shows "distance_to entry n \<le> r"
proof -
  define dx where "dx = x n - x cur"
  define dy where "dy = y n - y cur"
  define dist where "dist = sqrt (dx\<^sup>2 + dy\<^sup>2)"
  define pr where "pr = dx * (dx / dist) + dy * (dy / dist)"
  define cx where "cx = x cur + pr * (dx / dist)"
  define cy where "cy = y cur + pr * (dy / dist)"
  define dl where "dl = sqrt ((x n - cx)\<^sup>2 + (y n - cy)\<^sup>2)"
  define off where "off = sqrt (r\<^sup>2 - dl\<^sup>2)"
  have unfolded: "find_intersection_with_circle cur n n r =
      (if dist = 0 then Some cur
       else if distance_to cur n \<le> r then Some cur
       else if pr \<le> 0 then None
       else if dl > r then None
       else Some (Point (cx - off * (dx / dist)) (cy - off * (dy / dist)) ''''))"
    unfolding find_intersection_with_circle_def Let_def off_def dl_def cx_def cy_def pr_def
      dist_def dx_def dy_def
    by (rule refl)
  have d0: "0 \<le> dist" by (simp add: dist_def)
  have dd: "dist\<^sup>2 = dx\<^sup>2 + dy\<^sup>2" by (simp add: dist_def)
  have dcur: "distance_to cur n = dist - 1"
    by (simp add: distance_to_def error_def dist_def dx_def dy_def power2_commute)
  show ?thesis
  proof (cases "dist = 0")
    case True
    with f unfolded have "entry = cur" by simp
    with dcur True r show ?thesis by simp
  next
    case nz: False
    show ?thesis
    proof (cases "distance_to cur n \<le> r")
      case True
      with f unfolded nz have "entry = cur" by simp
      with True show ?thesis by simp
    next
      case far: False
      have proj: "pr = dist"
      proof -
        have "pr = (dx\<^sup>2 + dy\<^sup>2) / dist"
          by (simp add: pr_def power2_eq_square add_divide_distrib)
        also have "\<dots> = dist\<^sup>2 / dist" by (simp add: dd)
        also have "\<dots> = dist" using nz by (simp add: power2_eq_square)
        finally show ?thesis .
      qed
      have cx: "cx = x n" using nz by (simp add: cx_def proj dx_def)
      have cy: "cy = y n" using nz by (simp add: cy_def proj dy_def)
      have dl: "dl = 0" by (simp add: dl_def cx cy)
      from f unfolded nz far have r0: "0 \<le> r"
        and e: "entry = Point (cx - off * (dx / dist)) (cy - off * (dy / dist)) ''''"
        by (auto simp: dl split: if_splits)
      from r0 have off: "off = r" by (simp add: off_def dl)
      have "(x entry - x n)\<^sup>2 + (y entry - y n)\<^sup>2 = r\<^sup>2 * ((dx\<^sup>2 + dy\<^sup>2) / dist\<^sup>2)"
        by (simp add: e off cx cy Point_def power2_eq_square algebra_simps add_divide_distrib)
      also have "\<dots> = r\<^sup>2" using nz by (simp add: dd [symmetric])
      finally have "sqrt ((x entry - x n)\<^sup>2 + (y entry - y n)\<^sup>2) = r"
        using r0 by simp
      then show ?thesis
        by (simp add: distance_to_def error_def)
    qed
  qed
qed


lemma nearest_loop_mem:
  "nearest_loop cur us acc md = Some n \<Longrightarrow> n \<in> set us \<or> acc = Some n"
  by (induction us arbitrary: acc md) (auto simp: Let_def split: if_splits)

lemma nearest_loop_Some:
  "nearest_loop cur us (Some a) md \<noteq> None"
  by (induction us arbitrary: a md) (auto simp: Let_def)

lemma nearest_loop_nonempty:
  "us \<noteq> [] \<Longrightarrow> nearest_loop cur us None None \<noteq> None"
  by (cases us) (simp_all add: nearest_loop_Some)

lemma set_remove_shrinks:
  "n \<in> set us \<Longrightarrow> length (set_remove us n) < length us"
  unfolding set_remove_def
  by (rule length_filter_less [where x = n]) (simp_all add: same_key_def)

lemma fold_set_remove:
  "fold (\<lambda>obj us. set_remove us obj) ots us = filter (\<lambda>q. \<forall>obj \<in> set ots. \<not> same_key obj q) us"
proof (induction ots arbitrary: us)
  case Nil
  show ?case by simp
next
  case (Cons obj ots)
  have "fold (\<lambda>obj us. set_remove us obj) (obj # ots) us
      = filter (\<lambda>q. \<forall>obj \<in> set ots. \<not> same_key obj q) (set_remove us obj)"
    by (simp add: Cons.IH)
  also have "\<dots> = filter (\<lambda>q. \<forall>obj \<in> set (obj # ots). \<not> same_key obj q) us"
    by (simp add: set_remove_def conj_commute)
  finally show ?case .
qed

lemma fold_set_remove_shrinks:
  assumes "n \<in> set us" and "n \<in> set ots"
  shows "length (fold (\<lambda>obj us. set_remove us obj) ots us) < length us"
  unfolding fold_set_remove
  by (rule length_filter_less [where x = n]) (use assms in \<open>auto simp: same_key_def\<close>)

lemma greedy_step_shrinks:
  assumes r: "- 1 \<le> survey_radius m"
    and st: "greedy_step m s = Some s'"
  shows "length (st_unsurveyed s') < length (st_unsurveyed s)"
proof -
  from st obtain n where n: "nearest_loop (st_current s) (st_unsurveyed s) None None = Some n"
    by (auto simp: greedy_step_def split: option.splits)
  then have mem: "n \<in> set (st_unsurveyed s)"
    by (auto dest: nearest_loop_mem)
  show ?thesis
  proof (cases "find_intersection_with_circle (st_current s) n n (survey_radius m)")
    case None
    with st n have "s' = s\<lparr>st_unsurveyed := set_remove (st_unsurveyed s) n\<rparr>"
      by (simp add: greedy_step_def)
    with mem show ?thesis by (simp add: set_remove_shrinks)
  next
    case (Some entry)
    then have "distance_to entry n \<le> survey_radius m"
      using r by (rule intersection_within_radius)
    with mem have "n \<in> set (filter (\<lambda>obj. distance_to entry obj \<le> survey_radius m) (st_unsurveyed s))"
      by simp
    moreover from st n Some have "st_unsurveyed s' =
        fold (\<lambda>obj us. set_remove us obj)
          (filter (\<lambda>obj. distance_to entry obj \<le> survey_radius m) (st_unsurveyed s)) (st_unsurveyed s)"
      by (auto simp: greedy_step_def Let_def split: if_splits)
    ultimately show ?thesis
      using mem by (simp add: fold_set_remove_shrinks)
  qed
qed

lemma greedy_loop_invariant:
  assumes r: "- 1 \<le> survey_radius m"
    and step: "\<And>s s'. P s \<Longrightarrow> loop_guard m s \<Longrightarrow> greedy_step m s = Some s' \<Longrightarrow> P s'"
    and init: "P s"
  shows "\<exists>s'. greedy_loop m s = Some s' \<and> P s'"
  using init
proof (induction "length (st_unsurveyed s)" arbitrary: s rule: less_induct)
  case less
  show ?case
  proof (cases "loop_guard m s")
    case False
    then have "greedy_loop m s = Some s"
      by (subst greedy_loop.simps) simp
    with less.prems show ?thesis by simp
  next
    case True
    show ?thesis
    proof (cases "greedy_step m s")
      case None
      with True have "greedy_loop m s = Some s"
        by (subst greedy_loop.simps) simp
      with less.prems show ?thesis by simp
    next
      case (Some s1)
      with True have "greedy_loop m s = greedy_loop m s1"
        by (subst greedy_loop.simps) simp
      moreover have "length (st_unsurveyed s1) < length (st_unsurveyed s)"
        using r Some by (rule greedy_step_shrinks)
      moreover have "P s1"
        using less.prems True Some by (rule step)
      ultimately show ?thesis
        using less.hyps [of s1] by simp
    qed
  qed
qed

lemma route_sum_acc: "route_sum acc route = acc + route_sum 0 route"
proof (induction route arbitrary: acc rule: induct_list012)
  case (3 a b rest)
  have "route_sum acc (a # b # rest) = (acc + distance_to a b) + route_sum 0 (b # rest)"
    using "3.IH"(2) [of "acc + distance_to a b"] by simp
  moreover have "route_sum 0 (a # b # rest) = distance_to a b + route_sum 0 (b # rest)"
    using "3.IH"(2) [of "0 + distance_to a b"] by simp
  ultimately show ?case by simp
qed simp_all

lemma route_sum_snoc:
  "route \<noteq> [] \<Longrightarrow> route_sum acc (route @ [p]) = route_sum acc route + distance_to (last route) p"
proof (induction route arbitrary: acc rule: induct_list012)
  case (3 a b rest)
  then show ?case by simp
qed simp_all


lemma greedy_invariant_step:
  assumes "greedy_invariant m s" and "greedy_step m s = Some s'"
  shows "greedy_invariant m s'"
proof -
  from assms(2) obtain n where n: "nearest_loop (st_current s) (st_unsurveyed s) None None = Some n"
    by (auto simp: greedy_step_def split: option.splits)
  show ?thesis
  proof (cases "find_intersection_with_circle (st_current s) n n (survey_radius m)")
    case None
    with assms(2) n have "s' = s\<lparr>st_unsurveyed := set_remove (st_unsurveyed s) n\<rparr>"
      by (simp add: greedy_step_def)
    with assms(1) show ?thesis by (simp add: greedy_invariant_def)
  next
    case (Some entry)
    with assms(2) n have
      le: "st_length s + distance_to (st_current s) entry + distance_to entry (end_point m) \<le> max_distance m"
      and r: "st_route s' = st_route s @ [entry]"
      and c: "st_current s' = entry"
      and l: "st_length s' = st_length s + distance_to (st_current s) entry"
      by (auto simp: greedy_step_def Let_def split: if_splits)
    from assms(1) have ne: "st_route s \<noteq> []" and la: "last (st_route s) = st_current s"
      and len: "st_length s = route_sum 0 (st_route s)" and h: "hd (st_route s) = start_point m"
      by (simp_all add: greedy_invariant_def)
    from ne la len have "route_sum 0 (st_route s') = st_length s'"
      by (simp add: r l route_sum_snoc)
    with le r c l ne h show ?thesis
      by (simp add: greedy_invariant_def)
  qed
qed

lemma greedy_invariant_init:
  "validate m \<Longrightarrow> greedy_invariant m (greedy_initial_state m us)"
  by (auto simp: greedy_invariant_def greedy_initial_state_def validate_def Let_def split: if_splits)

lemma greedy_finish_route:
  assumes "greedy_invariant m s" and "greedy_finish m s = (route, sv, tot)"
  shows "route = st_route s @ [end_point m] \<and> tot = calculate_route_distance route
     \<and> calculate_route_distance route \<le> max_distance m
     \<and> hd route = start_point m \<and> last route = end_point m \<and> 2 \<le> length route"
proof -
  from assms(2) have r: "route = st_route s @ [end_point m]" and t: "tot = calculate_route_distance route"
    by (auto simp: greedy_finish_def Let_def)
  from assms(1) have ne: "st_route s \<noteq> []" and la: "last (st_route s) = st_current s"
      and len: "st_length s = route_sum 0 (st_route s)" and h: "hd (st_route s) = start_point m"
      and b: "st_length s + distance_to (st_current s) (end_point m) \<le> max_distance m"
    by (simp_all add: greedy_invariant_def)
  from ne have l2: "2 \<le> length route"
    by (cases "st_route s") (simp_all add: r)
  then have "calculate_route_distance route = route_sum 0 route"
    by (simp add: calculate_route_distance_def)
  also have "\<dots> = st_length s + distance_to (st_current s) (end_point m)"
    using ne la len by (simp add: r route_sum_snoc)
  finally have "calculate_route_distance route \<le> max_distance m"
    using b by simp
  with r t l2 ne h show ?thesis by simp
qed

lemma validate_radius: "validate m \<Longrightarrow> 0 \<le> survey_radius m"
  by (auto simp: validate_def Let_def split: if_splits)

lemma greedy_solve_from_result:
  assumes "validate m"
  shows "\<exists>route sv tot. greedy_solve_from m us = Some (route, sv, tot)
     \<and> tot = calculate_route_distance route
     \<and> calculate_route_distance route \<le> max_distance m
     \<and> hd route = start_point m \<and> last route = end_point m \<and> 2 \<le> length route"
proof -
  from assms have r: "- 1 \<le> survey_radius m"
    using validate_radius [of m] by simp
  have "\<exists>s'. greedy_loop m (greedy_initial_state m us) = Some s' \<and> greedy_invariant m s'"
    using r
  proof (rule greedy_loop_invariant)
    show "greedy_invariant m (greedy_initial_state m us)"
      using assms by (rule greedy_invariant_init)
  qed (rule greedy_invariant_step)
  then obtain s' where l: "greedy_loop m (greedy_initial_state m us) = Some s'"
    and i: "greedy_invariant m s'" by blast
  obtain route sv tot where f: "greedy_finish m s' = (route, sv, tot)"
    by (cases "greedy_finish m s'") 
  have "greedy_solve_from m us = Some (route, sv, tot)"
    using l f by (simp add: greedy_solve_from_def)
  with greedy_finish_route [OF i f] show ?thesis by blast
qed

lemma stuck_guard: "stuck_state s \<Longrightarrow> loop_guard map_negative_radius s"
  by (simp add: stuck_state_def loop_guard_def map_negative_radius_def distance_to_def error_def
      Point_def sqrt_100)

lemma stuck_step:
  assumes "stuck_state s"
  shows "\<exists>s'. greedy_step map_negative_radius s = Some s' \<and> stuck_state s'"
proof -
  have n: "nearest_loop (Point 0 0 ''start'') [Point 0 0 ''obj''] None None = Some (Point 0 0 ''obj'')"
    by simp
  have f: "find_intersection_with_circle (Point 0 0 ''start'') (Point 0 0 ''obj'') (Point 0 0 ''obj'') (- 5)
      = Some (Point 0 0 ''start'')"
    by (simp add: find_intersection_with_circle_def Point_def)
  have d: "distance_to (Point 0 0 ''start'') (Point 0 0 ''start'') = - 1"
      "distance_to (Point 0 0 ''start'') (Point 0 0 ''obj'') = - 1"
      "distance_to (Point 0 0 ''start'') (Point 10 0 ''end'') = 9"
    by (simp_all add: distance_to_def error_def Point_def sqrt_100)
  from assms show ?thesis
    by (simp add: greedy_step_def stuck_state_def map_negative_radius_def n f d)
qed

lemma stuck_forever:
  assumes "greedy_loop m s = Some res"
  shows "m = map_negative_radius \<longrightarrow> \<not> stuck_state s"
proof (rule greedy_loop.raw_induct
    [where P = "\<lambda>m s res. m = map_negative_radius \<longrightarrow> \<not> stuck_state s", OF _ assms])
  fix loop :: "Map \<Rightarrow> greedy_state \<Rightarrow> greedy_state option" and m s res
  assume IH: "\<And>m s res. loop m s = Some res \<Longrightarrow> m = map_negative_radius \<longrightarrow> \<not> stuck_state s"
    and body: "(if loop_guard m s
                then case greedy_step m s of None \<Rightarrow> Some s | Some s' \<Rightarrow> loop m s'
                else Some s) = Some res"
  show "m = map_negative_radius \<longrightarrow> \<not> stuck_state s"
  proof (intro impI notI)
    assume m: "m = map_negative_radius" and st: "stuck_state s"
    from st obtain s1 where s1: "greedy_step map_negative_radius s = Some s1" and st1: "stuck_state s1"
      using stuck_step by blast
    from st have "loop_guard map_negative_radius s" by (rule stuck_guard)
    with body m s1 have "loop m s1 = Some res" by simp
    from IH [OF this] m st1 show False by simp
  qed
qed


section \<open>The steps of the heuristic solver\<close>

lemma min_by_key_mem: "min_by_key key best objs \<in> set (best # objs)"
  by (induction objs arbitrary: best) auto

lemma point_eq_refl: "point_eq p p"
  by (simp add: point_eq_def)

lemma list_remove_found: "v \<in> set qs \<Longrightarrow> list_remove qs v \<noteq> None"
  by (induction qs) (auto simp: point_eq_refl)

lemma initial_route_loop_extends:
  "\<exists>ys. initial_route_loop route remaining cur = Some (route @ ys)"
proof (induction route remaining cur rule: initial_route_loop.induct)
  case (1 route remaining cur)
  show ?case
  proof (cases "remaining = []")
    case True
    then show ?thesis by (simp add: initial_route_loop.simps)
  next
    case False
    define c where "c = min_by_key (\<lambda>obj. distance_to cur obj) (hd remaining) (tl remaining)"
    from False have "c \<in> set remaining"
      using min_by_key_mem [of "\<lambda>obj. distance_to cur obj" "hd remaining" "tl remaining"]
      by (simp add: c_def)
    then obtain rest where r: "list_remove remaining c = Some rest"
      using list_remove_found by blast
    from "1.IH" [OF False c_def r] obtain ys where
      "initial_route_loop (route @ [c]) rest c = Some ((route @ [c]) @ ys)" by blast
    with False r have "initial_route_loop route remaining cur = Some (route @ (c # ys))"
      by (subst initial_route_loop.simps) (simp add: c_def [symmetric])
    then show ?thesis by blast
  qed
qed

lemma greedy_initial_route_ends:
  "\<exists>route. greedy_initial_route m = Some route \<and> route_ends m route"
proof -
  obtain ys where "initial_route_loop [start_point m] (objects m) (start_point m) = Some ([start_point m] @ ys)"
    using initial_route_loop_extends by blast
  then show ?thesis
    by (simp add: greedy_initial_route_def route_ends_def)
qed

lemma two_opt_pairs_bounds:
  "(i, j) \<in> set (two_opt_pairs n) \<Longrightarrow> 1 \<le> i \<and> i < j \<and> j + 1 < n"
  by (auto simp: two_opt_pairs_def)

lemma reversed_slice_ends:
  assumes "1 \<le> i" "i < j" "j + 1 < length route"
  shows "length (reversed_slice route i j) = length route
    \<and> hd (reversed_slice route i j) = hd route \<and> last (reversed_slice route i j) = last route"
proof -
  have l: "length (reversed_slice route i j) = length route"
    using assms by (simp add: reversed_slice_def)
  have t: "take i route \<noteq> []" using assms by auto
  have d: "drop (j + 1) route \<noteq> []" using assms by auto
  have "hd (reversed_slice route i j) = hd (take i route)"
    using t by (simp add: reversed_slice_def)
  also have "\<dots> = hd route" using assms by (simp add: hd_take)
  finally have h: "hd (reversed_slice route i j) = hd route" .
  have "last (reversed_slice route i j) = last (drop (j + 1) route)"
    using d by (simp add: reversed_slice_def)
  also have "\<dots> = last route" using assms by (simp add: last_drop)
  finally show ?thesis using l h by simp
qed

lemma first_improvement_ends:
  assumes "first_improvement route best_distance = Some new_route"
  shows "length new_route = length route \<and> hd new_route = hd route \<and> last new_route = last route"
proof -
  from assms obtain i j where
    f: "find (\<lambda>(i, j). calculate_route_distance (reversed_slice route i j) < best_distance)
          (two_opt_pairs (length route)) = Some (i, j)"
    and n: "new_route = reversed_slice route i j"
    by (auto simp: first_improvement_def split: option.splits)
  from f have "(i, j) \<in> set (two_opt_pairs (length route))"
    by (auto simp: find_Some_iff in_set_conv_nth)
  then have "1 \<le> i \<and> i < j \<and> j + 1 < length route" by (rule two_opt_pairs_bounds)
  then show ?thesis using reversed_slice_ends [of i j route] n by simp
qed

lemma local_search_loop_ends:
  "length (local_search_loop route best_distance) = length route
   \<and> hd (local_search_loop route best_distance) = hd route
   \<and> last (local_search_loop route best_distance) = last route"
proof (induction route best_distance rule: local_search_loop.induct)
  case (1 route best_distance)
  show ?case
  proof (cases "first_improvement route best_distance")
    case None
    then show ?thesis by (simp add: local_search_loop.simps)
  next
    case (Some new_route)
    then have "local_search_loop route best_distance
        = local_search_loop new_route (calculate_route_distance new_route)"
      by (subst local_search_loop.simps) simp
    with "1.IH" [OF Some] first_improvement_ends [OF Some] show ?thesis by simp
  qed
qed

lemma local_search_2opt_ends:
  "route_ends m route \<Longrightarrow> route_ends m (local_search_2opt route)"
  by (simp add: route_ends_def local_search_2opt_def local_search_loop_ends)

lemma geometric_step_keeps:
  "length (geometric_step m route i opt) = length opt
   \<and> (k \<noteq> i \<longrightarrow> geometric_step m route i opt ! k = opt ! k)"
  by (simp add: geometric_step_def Let_def split: option.splits)

lemma fold_geometric_step_keeps:
  "length (fold (geometric_step m route) is opt) = length opt
   \<and> (k \<notin> set is \<longrightarrow> fold (geometric_step m route) is opt ! k = opt ! k)"
proof (induction "is" arbitrary: opt)
  case Nil
  show ?case by simp
next
  case (Cons i "is")
  from Cons [of "geometric_step m route i opt"] geometric_step_keeps [of m route i opt k]
  show ?case by auto
qed

lemma geometric_optimization_ends:
  assumes "route_ends m route"
  shows "route_ends m (geometric_optimization m route)"
proof -
  let ?g = "geometric_optimization m route"
  from assms have l2: "2 \<le> length route" by (simp add: route_ends_def)
  have len: "length ?g = length route"
    using fold_geometric_step_keeps [of m route "[1 ..< length route - 1]" route]
    by (simp add: geometric_optimization_def)
  have k0: "?g ! 0 = route ! 0"
    using fold_geometric_step_keeps [of m route "[1 ..< length route - 1]" route 0]
    by (simp add: geometric_optimization_def)
  have kn: "?g ! (length route - 1) = route ! (length route - 1)"
    using fold_geometric_step_keeps [of m route "[1 ..< length route - 1]" route "length route - 1"]
    by (simp add: geometric_optimization_def)
  from l2 len have ne: "?g \<noteq> []" "route \<noteq> []" by auto
  have "hd ?g = hd route" using k0 ne by (simp add: hd_conv_nth)
  moreover have "last ?g = last route" using kn ne len by (simp add: last_conv_nth)
  ultimately show ?thesis using assms len by (simp add: route_ends_def)
qed

lemma remove_step_ends:
  assumes "route_ends m route" "3 < length route" "1 \<le> i" "i < length route - 1" "route_ends m (fst state)"
  shows "route_ends m (fst (remove_step route i state))"
proof -
  let ?t = "take i route @ drop (i + 1) route"
  have t: "take i route \<noteq> []" using assms by auto
  have d: "drop (i + 1) route \<noteq> []" using assms by auto
  have "hd ?t = hd route" using t assms by (simp add: hd_take)
  moreover have "last ?t = last route" using d assms by (simp add: last_drop)
  moreover have "2 \<le> length ?t" using assms by simp
  ultimately have "route_ends m ?t" using assms(1) by (simp add: route_ends_def)
  with assms(5) show ?thesis by (simp add: remove_step_def Let_def)
qed

lemma fold_remove_step_ends:
  assumes "route_ends m route" "3 < length route" "\<forall>i \<in> set is. 1 \<le> i \<and> i < length route - 1"
    "route_ends m (fst state)"
  shows "route_ends m (fst (fold (remove_step route) is state))"
  using assms(3,4)
proof (induction "is" arbitrary: state)
  case Nil
  then show ?case by simp
next
  case (Cons i "is")
  have "route_ends m (fst (remove_step route i state))"
    using assms(1,2) Cons.prems by (intro remove_step_ends) simp_all
  with Cons show ?case by simp
qed

lemma remove_farthest_point_ends:
  assumes "route_ends m route"
  shows "route_ends m (remove_farthest_point m route)"
proof (cases "length route \<le> 3")
  case True
  then show ?thesis by (simp add: remove_farthest_point_def route_ends_def)
next
  case False
  then have "route_ends m (fst (fold (remove_step route) [1 ..< length route - 1]
                  (route, calculate_route_distance route)))"
    using assms by (intro fold_remove_step_ends) simp_all
  with False show ?thesis by (simp add: remove_farthest_point_def)
qed

lemma heuristic_loop_ends:
  "route_ends m route \<Longrightarrow> route_ends m (heuristic_loop m iteration route)"
proof (induction m iteration route rule: heuristic_loop.induct)
  case (1 m iteration route)
  let ?r2 = "geometric_optimization m (local_search_2opt route)"
  let ?r3 = "remove_farthest_point m ?r2"
  have e2: "route_ends m ?r2"
    using "1.prems" by (intro geometric_optimization_ends local_search_2opt_ends)
  then have e3: "route_ends m ?r3" by (rule remove_farthest_point_ends)
  show ?case
  proof (cases "iteration < max_iterations \<and> \<not> calculate_route_distance ?r2 \<le> max_distance m
       \<and> \<not> length ?r3 \<le> 2")
    case True
    then have "heuristic_loop m iteration route = heuristic_loop m (iteration + 1) ?r3"
      by (subst heuristic_loop.simps) (simp add: Let_def)
    moreover from True have a: "iteration < max_iterations"
      and b: "\<not> calculate_route_distance ?r2 \<le> max_distance m"
      and c: "\<not> length ?r3 \<le> 2" by simp_all
    have "route_ends m (heuristic_loop m (iteration + 1) ?r3)"
      by (rule "1.IH" [OF a refl refl refl b refl c e3])
    ultimately show ?thesis by simp
  next
    case False
    then have "heuristic_loop m iteration route \<in> {route, ?r2, ?r3}"
      by (subst heuristic_loop.simps) (auto simp: Let_def)
    with "1.prems" e2 e3 show ?thesis by auto
  qed
qed

lemma heuristic_solve_ends:
  "\<exists>route sv tot. HeuristicSolver_solve m = Some (route, sv, tot) \<and> route_ends m route"
proof -
  obtain r0 where r0: "greedy_initial_route m = Some r0" and e0: "route_ends m r0"
    using greedy_initial_route_ends by blast
  from e0 have "route_ends m (heuristic_loop m 0 r0)" by (rule heuristic_loop_ends)
  with r0 show ?thesis by (simp add: HeuristicSolver_solve_def Let_def)
qed

section \<open>The greedy solver\<close>

lemma validate_map_on_axis: "validate map_on_axis"
  by (simp add: validate_def map_on_axis_def point_eq_def Point_def distance_to_def error_def sqrt_100)

lemma py_set_singleton: "py_set [p] = [p]"
  by (simp add: py_set_def set_add_def)

text \<open>
  Claim C9, as it is written: the greedy solver terminates for every map.  On a map
  with survey radius \<open>-5\<close> and an object at the start point the loop never leaves: each
  pass appends the start point to the route again, lowers the route length by 1 and
  removes nothing from the unsurveyed set.
\<close>

theorem greedy_nontermination_counterexample:
  "GreedySolver_solve map_negative_radius = None"
proof -
  have p: "py_set (objects map_negative_radius) = [Point 0 0 ''obj'']"
    by (simp add: map_negative_radius_def py_set_singleton)
  have "stuck_state (greedy_initial_state map_negative_radius [Point 0 0 ''obj''])"
    by (simp add: stuck_state_def greedy_initial_state_def map_negative_radius_def)
  then have "greedy_loop map_negative_radius
      (greedy_initial_state map_negative_radius [Point 0 0 ''obj'']) = None"
    using stuck_forever [of map_negative_radius
        "greedy_initial_state map_negative_radius [Point 0 0 ''obj'']"]
    by (cases "greedy_loop map_negative_radius
        (greedy_initial_state map_negative_radius [Point 0 0 ''obj''])") auto
  then show ?thesis
    by (simp add: GreedySolver_solve_def greedy_solve_from_def p)
qed

text \<open>
  Claim C9, amended: the greedy solver terminates for every map whose survey radius is
  at least \<open>-1\<close>, in particular for every map that passes \<open>validate\<close>, whatever the
  iteration order of the unsurveyed set: every pass through the loop body that does not
  break makes the unsurveyed set strictly smaller (it removes the selected object when
  there is no entry point, and otherwise the committed entry point is within the biased
  survey radius of the selected object, which the bonus-coverage step then removes).
\<close>

theorem greedy_terminates:
  assumes "- 1 \<le> survey_radius m"
  shows "(\<exists>result. greedy_solve_from m unsurveyed = Some result)
    \<and> (\<exists>result. GreedySolver_solve m = Some result)
    \<and> (greedy_step m s = Some s' \<longrightarrow> length (st_unsurveyed s') < length (st_unsurveyed s))
    \<and> (find_intersection_with_circle current obj obj (survey_radius m) = Some entry
         \<longrightarrow> distance_to entry obj \<le> survey_radius m)"
proof -
  have "\<exists>s'. greedy_loop m (greedy_initial_state m us) = Some s' \<and> True" for us
    using assms by (rule greedy_loop_invariant) simp_all
  then have "\<exists>result. greedy_solve_from m us = Some result" for us
    unfolding greedy_solve_from_def by (metis option.simps(9))
  then show ?thesis
    using greedy_step_shrinks [OF assms] intersection_within_radius [OF _ assms]
    by (simp add: GreedySolver_solve_def)
qed

theorem greedy_terminates_witness:
  "- 1 \<le> survey_radius map_on_axis
   \<and> (\<exists>result. GreedySolver_solve map_on_axis = Some result)
   \<and> greedy_step map_on_axis (greedy_initial_state map_on_axis [Point 5 0 ''obj''])
       = Some \<lparr>st_route = [Point 0 0 ''start'', Point 2 0 ''''], st_surveyed = [Point 5 0 ''obj''],
               st_current = Point 2 0 '''', st_length = 1, st_unsurveyed = []\<rparr>
   \<and> length (st_unsurveyed \<lparr>st_route = [Point 0 0 ''start'', Point 2 0 ''''],
               st_surveyed = [Point 5 0 ''obj''],
               st_current = Point 2 0 '''', st_length = 1, st_unsurveyed = []\<rparr>)
       < length (st_unsurveyed (greedy_initial_state map_on_axis [Point 5 0 ''obj'']))
   \<and> find_intersection_with_circle (Point 0 0 ''start'') (Point 5 0 ''obj'') (Point 5 0 ''obj'')
         (survey_radius map_on_axis) = Some (Point 2 0 '''')
   \<and> distance_to (Point 2 0 '''') (Point 5 0 ''obj'') \<le> survey_radius map_on_axis"
proof -
  let ?s = "greedy_initial_state map_on_axis [Point 5 0 ''obj'']"
  let ?s' = "\<lparr>st_route = [Point 0 0 ''start'', Point 2 0 ''''], st_surveyed = [Point 5 0 ''obj''],
               st_current = Point 2 0 '''', st_length = 1, st_unsurveyed = []\<rparr>"
  have r: "- 1 \<le> survey_radius map_on_axis"
    by (simp add: map_on_axis_def)
  have f: "find_intersection_with_circle (Point 0 0 ''start'') (Point 5 0 ''obj'') (Point 5 0 ''obj'') 3
      = Some (Point 2 0 '''')"
    by (simp add: find_intersection_with_circle_def Point_def distance_to_def error_def sqrt_25 sqrt_9)
  have d: "distance_to (Point 0 0 ''start'') (Point 2 0 '''') = 1"
      "distance_to (Point 2 0 '''') (Point 10 0 ''end'') = 7"
      "distance_to (Point 2 0 '''') (Point 5 0 ''obj'') = 2"
    by (simp_all add: distance_to_def error_def Point_def sqrt_4 sqrt_9 sqrt_64)
  have st: "greedy_step map_on_axis ?s = Some ?s'"
    by (simp add: greedy_step_def greedy_initial_state_def map_on_axis_def f d
        set_add_def set_remove_def same_key_def)
  have f': "find_intersection_with_circle (Point 0 0 ''start'') (Point 5 0 ''obj'') (Point 5 0 ''obj'')
         (survey_radius map_on_axis) = Some (Point 2 0 '''')"
    using f by (simp add: map_on_axis_def)
  from greedy_terminates [OF r, of "[Point 5 0 ''obj'']" ?s ?s'
      "Point 0 0 ''start''" "Point 5 0 ''obj''" "Point 2 0 ''''"] r st f'
  show ?thesis
    by simp
qed

text \<open>
  Claim C1: for every map that passes \<open>validate\<close> the greedy solver returns a triple
  whose route has a route distance within the budget, whatever the iteration order of
  the unsurveyed set; the returned total distance is that route distance.
\<close>

theorem greedy_within_budget:
  assumes "validate m"
  shows "(\<exists>route surveyed total_distance.
            greedy_solve_from m unsurveyed = Some (route, surveyed, total_distance)
            \<and> total_distance = calculate_route_distance route
            \<and> calculate_route_distance route \<le> max_distance m)
    \<and> (\<exists>route surveyed total_distance.
            GreedySolver_solve m = Some (route, surveyed, total_distance)
            \<and> total_distance = calculate_route_distance route
            \<and> calculate_route_distance route \<le> max_distance m)"
  using greedy_solve_from_result [OF assms, of unsurveyed]
    greedy_solve_from_result [OF assms, of "py_set (objects m)"]
  unfolding GreedySolver_solve_def by blast

theorem greedy_within_budget_witness:
  "validate map_on_axis
   \<and> (\<exists>route surveyed total_distance.
            GreedySolver_solve map_on_axis = Some (route, surveyed, total_distance)
            \<and> total_distance = calculate_route_distance route
            \<and> calculate_route_distance route \<le> max_distance map_on_axis)"
  using greedy_within_budget [OF validate_map_on_axis] validate_map_on_axis by blast

section \<open>Route endpoints\<close>

text \<open>
  Claim C2: for every map that passes \<open>validate\<close>, the greedy solver (whatever the
  iteration order of the unsurveyed set) and the heuristic solver return a route of
  at least two points whose first element is the start point and whose last element
  is the end point; the 2-opt step, the geometric step and the point-removal step of
  the heuristic solver each turn a route with these endpoints into a route with these
  endpoints.
\<close>

theorem routes_keep_endpoints:
  assumes "validate m"
  shows "(\<exists>route surveyed total_distance.
            greedy_solve_from m unsurveyed = Some (route, surveyed, total_distance)
            \<and> hd route = start_point m \<and> last route = end_point m \<and> 2 \<le> length route)
    \<and> (\<exists>route surveyed total_distance.
            GreedySolver_solve m = Some (route, surveyed, total_distance)
            \<and> hd route = start_point m \<and> last route = end_point m \<and> 2 \<le> length route)
    \<and> (\<exists>route surveyed total_distance.
            HeuristicSolver_solve m = Some (route, surveyed, total_distance)
            \<and> hd route = start_point m \<and> last route = end_point m \<and> 2 \<le> length route)
    \<and> (route_ends m r \<longrightarrow>
          route_ends m (local_search_2opt r) \<and> route_ends m (geometric_optimization m r)
          \<and> route_ends m (remove_farthest_point m r))"
proof -
  have g: "\<exists>route surveyed total_distance.
            greedy_solve_from m us = Some (route, surveyed, total_distance)
            \<and> hd route = start_point m \<and> last route = end_point m \<and> 2 \<le> length route" for us
    using greedy_solve_from_result [OF assms, of us] by blast
  have h: "\<exists>route surveyed total_distance.
            HeuristicSolver_solve m = Some (route, surveyed, total_distance)
            \<and> hd route = start_point m \<and> last route = end_point m \<and> 2 \<le> length route"
    using heuristic_solve_ends [of m] unfolding route_ends_def by blast
  have s: "route_ends m r \<longrightarrow>
          route_ends m (local_search_2opt r) \<and> route_ends m (geometric_optimization m r)
          \<and> route_ends m (remove_farthest_point m r)"
    by (simp add: local_search_2opt_ends geometric_optimization_ends remove_farthest_point_ends)
  from g [of unsurveyed] g [of "py_set (objects m)"] h s show ?thesis
    unfolding GreedySolver_solve_def by blast
qed

theorem routes_keep_endpoints_witness:
  "validate map_on_axis
   \<and> route_ends map_on_axis [Point 0 0 ''start'', Point 5 0 ''obj'', Point 10 0 ''end'']
   \<and> (\<exists>route surveyed total_distance.
            HeuristicSolver_solve map_on_axis = Some (route, surveyed, total_distance)
            \<and> hd route = start_point map_on_axis \<and> last route = end_point map_on_axis
            \<and> 2 \<le> length route)
   \<and> route_ends map_on_axis
        (remove_farthest_point map_on_axis [Point 0 0 ''start'', Point 5 0 ''obj'', Point 10 0 ''end''])"
proof -
  have e: "route_ends map_on_axis [Point 0 0 ''start'', Point 5 0 ''obj'', Point 10 0 ''end'']"
    by (simp add: route_ends_def map_on_axis_def)
  from routes_keep_endpoints [OF validate_map_on_axis,
      of "[]" "[Point 0 0 ''start'', Point 5 0 ''obj'', Point 10 0 ''end'']"]
    validate_map_on_axis e
  show ?thesis by blast
qed

section \<open>The heuristic solver on \<open>map_cycle\<close>\<close>

lemma cyc_sqrts:
  "sqrt (1521 / 400) = 39 / 20" "sqrt (81 / 16) = 9 / 4" "sqrt (25 / 16) = 5 / 4"
  "sqrt (9 / 25) = 3 / 5" "sqrt (16 / 25) = 4 / 5"
  by (rule sqrt_rat; simp)+

lemmas cyc_points = cyc_start_def cyc_end_def cyc_far_def cyc_near_def cyc_moved_def Point_def

lemma cyc_dist:
  "distance_to cyc_start cyc_near = 19 / 20"
  "distance_to cyc_start cyc_moved = 19 / 20"
  "distance_to cyc_start cyc_far = 5 / 4"
  "distance_to cyc_start cyc_end = 1 / 4"
  "distance_to cyc_near cyc_far = - 2 / 5"
  "distance_to cyc_moved cyc_far = - 2 / 5"
  "distance_to cyc_far cyc_near = - 2 / 5"
  "distance_to cyc_far cyc_moved = - 2 / 5"
  "distance_to cyc_near cyc_end = - 1 / 5"
  "distance_to cyc_moved cyc_end = - 1 / 5"
  "distance_to cyc_far cyc_end = 0"
  "distance_to cyc_far cyc_far = - 1"
  "distance_to cyc_near cyc_moved = - 1"
  "distance_to cyc_moved cyc_moved = - 1"
  "distance_to cyc_near cyc_near = - 1"
  "distance_to cyc_moved cyc_near = - 1"
  by (simp_all add: distance_to_def error_def cyc_points power2_eq_square cyc_sqrts)

lemma cyc_point_eq:
  "\<not> point_eq cyc_far cyc_near" "point_eq cyc_near cyc_near" "point_eq cyc_far cyc_far"
  by (simp_all add: point_eq_def cyc_points)

lemma cyc_initial: "greedy_initial_route map_cycle = Some route_low"
proof -
  have r1: "list_remove [cyc_far, cyc_near] cyc_near = Some [cyc_far]"
    by (simp add: point_eq_def cyc_points)
  have r2: "list_remove [cyc_far] cyc_far = Some []"
    by (simp add: point_eq_def)
  have "initial_route_loop [cyc_start, cyc_near, cyc_far] [] cyc_far = Some [cyc_start, cyc_near, cyc_far]"
    by (simp add: initial_route_loop.simps)
  then have "initial_route_loop [cyc_start, cyc_near] [cyc_far] cyc_near = Some [cyc_start, cyc_near, cyc_far]"
    by (subst initial_route_loop.simps) (simp add: cyc_point_eq)
  then have "initial_route_loop [cyc_start] [cyc_far, cyc_near] cyc_start = Some [cyc_start, cyc_near, cyc_far]"
    by (subst initial_route_loop.simps) (simp add: cyc_dist cyc_point_eq)
  then show ?thesis
    by (simp add: greedy_initial_route_def map_cycle_def route_low_def)
qed

lemma cyc_crd:
  "calculate_route_distance route_low = 11 / 20"
  "calculate_route_distance route_back = 11 / 20"
  "calculate_route_distance route_high = 13 / 20"
  by (simp_all add: calculate_route_distance_def route_low_def route_back_def route_high_def cyc_dist)

lemma pairs4: "two_opt_pairs 4 = [(Suc 0, 2)]"
  by (simp add: two_opt_pairs_def upt_conv_Cons)

lemma cyc_lengths: "length route_low = 4" "length route_back = 4" "length route_high = 4"
  by (simp_all add: route_low_def route_back_def route_high_def)

lemma upt_1_3: "[Suc 0 ..< 3] = [Suc 0, 2]"
  by (simp add: upt_conv_Cons)

lemma rev_low: "reversed_slice route_low (Suc 0) 2 = [cyc_start, cyc_far, cyc_near, cyc_end]"
  by (simp add: reversed_slice_def route_low_def)

lemma rev_back: "reversed_slice route_back (Suc 0) 2 = route_high"
  by (simp add: reversed_slice_def route_back_def route_high_def)

lemma rev_high: "reversed_slice route_high (Suc 0) 2 = route_back"
  by (simp add: reversed_slice_def route_back_def route_high_def)

lemma cyc_2opt_low: "local_search_2opt route_low = route_low"
proof -
  have "calculate_route_distance [cyc_start, cyc_far, cyc_near, cyc_end] = 13 / 20"
    by (simp add: calculate_route_distance_def cyc_dist)
  then have "first_improvement route_low (11 / 20) = None"
    by (simp add: first_improvement_def cyc_lengths pairs4 rev_low)
  then show ?thesis
    by (simp add: local_search_2opt_def cyc_crd local_search_loop.simps)
qed

lemma cyc_2opt_high: "local_search_2opt route_high = route_back"
proof -
  note l = cyc_lengths
  have 1: "first_improvement route_high (13 / 20) = Some route_back"
    by (simp add: first_improvement_def l pairs4 rev_high cyc_crd)
  have 2: "first_improvement route_back (11 / 20) = None"
    by (simp add: first_improvement_def l pairs4 rev_back cyc_crd)
  have "local_search_loop route_back (11 / 20) = route_back"
    by (subst local_search_loop.simps) (simp add: 2)
  then have "local_search_loop route_high (13 / 20) = route_back"
    by (subst local_search_loop.simps) (simp add: 1 cyc_crd)
  then show ?thesis
    by (simp add: local_search_2opt_def cyc_crd)
qed

lemma cyc_opt_first: "optimize_point_position map_cycle cyc_far cyc_start cyc_far = cyc_far"
  by (simp add: optimize_point_position_def project_point_on_segment_def cyc_points power2_eq_square)

lemma cyc_opt_second:
  "optimize_point_position map_cycle cyc_far cyc_near cyc_end = cyc_moved"
  "optimize_point_position map_cycle cyc_far cyc_moved cyc_end = cyc_moved"
  by (simp_all add: optimize_point_position_def project_point_on_segment_def cyc_points
      power2_eq_square cyc_sqrts map_cycle_def)

lemma cyc_find:
  "find (\<lambda>obj. distance_to cyc_near obj \<le> 1) [cyc_far, cyc_near] = Some cyc_far"
  "find (\<lambda>obj. distance_to cyc_moved obj \<le> 1) [cyc_far, cyc_near] = Some cyc_far"
  "find (\<lambda>obj. distance_to cyc_far obj \<le> 1) [cyc_far, cyc_near] = Some cyc_far"
  by (simp_all add: cyc_dist)

lemma cyc_geo_low: "geometric_optimization map_cycle route_low = route_high"
proof -
  note u = upt_1_3
  have o: "objects map_cycle = [cyc_far, cyc_near]" "survey_radius map_cycle = 1"
    by (simp_all add: map_cycle_def)
  have 1: "geometric_step map_cycle route_low (Suc 0) route_low = [cyc_start, cyc_far, cyc_far, cyc_end]"
    by (simp add: geometric_step_def o route_low_def cyc_find cyc_opt_first cyc_dist)
  have 2: "geometric_step map_cycle route_low 2 [cyc_start, cyc_far, cyc_far, cyc_end] = route_high"
    by (simp add: geometric_step_def o route_low_def route_high_def cyc_find cyc_opt_second cyc_dist)
  show ?thesis
    by (simp add: geometric_optimization_def cyc_lengths u 1 2)
qed

lemma cyc_geo_back: "geometric_optimization map_cycle route_back = route_high"
proof -
  note u = upt_1_3
  have o: "objects map_cycle = [cyc_far, cyc_near]" "survey_radius map_cycle = 1"
    by (simp_all add: map_cycle_def)
  have 1: "geometric_step map_cycle route_back (Suc 0) route_back = [cyc_start, cyc_far, cyc_far, cyc_end]"
    by (simp add: geometric_step_def o route_back_def cyc_find cyc_opt_first cyc_dist)
  have 2: "geometric_step map_cycle route_back 2 [cyc_start, cyc_far, cyc_far, cyc_end] = route_high"
    by (simp add: geometric_step_def o route_back_def route_high_def cyc_find cyc_opt_second cyc_dist)
  show ?thesis
    by (simp add: geometric_optimization_def cyc_lengths u 1 2)
qed

lemma cyc_remove: "remove_farthest_point map_cycle route_high = route_high"
proof -
  note u = upt_1_3
  have t: "calculate_route_distance [cyc_start, cyc_moved, cyc_end] = 3 / 4"
    "calculate_route_distance [cyc_start, cyc_far, cyc_end] = 5 / 4"
    by (simp_all add: calculate_route_distance_def cyc_dist)
  have 1: "remove_step route_high (Suc 0) (route_high, 13 / 20) = (route_high, 13 / 20)"
    by (simp add: remove_step_def) (simp add: route_high_def t)
  have 2: "remove_step route_high 2 (route_high, 13 / 20) = (route_high, 13 / 20)"
    by (simp add: remove_step_def) (simp add: route_high_def t)
  show ?thesis
    by (simp add: remove_farthest_point_def cyc_lengths u cyc_crd 1 2)
qed

lemma cyc_max: "max_distance map_cycle = 1 / 2"
  by (simp add: map_cycle_def)

lemma cyc_body_high:
  "k < max_iterations \<Longrightarrow>
   heuristic_loop map_cycle k route_high = heuristic_loop map_cycle (k + 1) route_high"
  by (subst heuristic_loop.simps)
     (simp add: cyc_2opt_high cyc_geo_back cyc_crd cyc_max cyc_remove cyc_lengths)

lemma cyc_loop_high: "heuristic_loop map_cycle k route_high = route_high"
proof (induction "max_iterations - k" arbitrary: k)
  case 0
  then show ?case by (subst heuristic_loop.simps) simp
next
  case (Suc n)
  then have "k < max_iterations" and "n = max_iterations - (k + 1)" by simp_all
  with Suc.hyps(1) [of "k + 1"] cyc_body_high [of k] show ?case by simp
qed

lemma cyc_loop_low: "heuristic_loop map_cycle 0 route_low = route_high"
proof -
  have "heuristic_loop map_cycle 0 route_low = heuristic_loop map_cycle (0 + 1) route_high"
    by (subst heuristic_loop.simps)
       (simp add: cyc_2opt_low cyc_geo_low cyc_crd cyc_max cyc_remove cyc_lengths max_iterations_def)
  then show ?thesis by (simp add: cyc_loop_high)
qed

lemma cyc_valid: "validate map_cycle"
  by (simp add: validate_def map_cycle_def cyc_dist) (simp add: point_eq_def cyc_points)

text \<open>
  Claim C6 on \<open>map_cycle\<close>, which passes \<open>validate\<close>: the initial route has distance
  11/20; the 2-opt step leaves it unchanged and the geometric step then raises the
  distance to 13/20, above the budget 1/2; the removal step removes nothing.  From then
  on every outer iteration lowers the distance to 11/20 in the 2-opt step and raises
  it to 13/20 in the geometric step, never reaches feasibility and never collapses, so
  the loop runs until the iteration cap and the solver returns the route of distance
  13/20.
\<close>

theorem heuristic_distance_increases:
  "validate map_cycle
   \<and> greedy_initial_route map_cycle = Some route_low
   \<and> calculate_route_distance route_low = 11 / 20
   \<and> local_search_2opt route_low = route_low
   \<and> geometric_optimization map_cycle route_low = route_high
   \<and> calculate_route_distance route_high = 13 / 20
   \<and> max_distance map_cycle < calculate_route_distance route_high
   \<and> remove_farthest_point map_cycle route_high = route_high
   \<and> local_search_2opt route_high = route_back
   \<and> calculate_route_distance route_back = 11 / 20
   \<and> geometric_optimization map_cycle route_back = route_high
   \<and> (\<forall>k. heuristic_loop map_cycle k route_high = route_high)
   \<and> HeuristicSolver_solve map_cycle
        = Some (route_high, get_surveyed_objects map_cycle route_high, 13 / 20)"
  by (simp add: cyc_valid cyc_initial cyc_crd cyc_2opt_low cyc_geo_low cyc_max cyc_remove
      cyc_2opt_high cyc_geo_back cyc_loop_high cyc_loop_low HeuristicSolver_solve_def)

section \<open>The survey radius\<close>

lemma same_key_segment_distance:
  "same_key p q \<Longrightarrow> distance_point_to_segment p a b = distance_point_to_segment q a b"
  by (simp add: same_key_def distance_point_to_segment_def Let_def distance_to_def error_def)

lemma same_key_near:
  "same_key p q \<Longrightarrow> near_some_segment m route p = near_some_segment m route q"
  by (simp add: near_some_segment_def same_key_segment_distance [of p q])

lemma near_mono:
  assumes "r1 \<le> r2" and "near_some_segment (m\<lparr>survey_radius := r1\<rparr>) route obj"
  shows "near_some_segment (m\<lparr>survey_radius := r2\<rparr>) route obj"
proof -
  from assms(2) obtain i where i: "i \<in> set [0 ..< length route - 1]"
    and d: "distance_point_to_segment obj (route ! i) (route ! (i + 1)) \<le> r1"
    by (auto simp: near_some_segment_def list_ex_iff)
  from d assms(1) have "distance_point_to_segment obj (route ! i) (route ! (i + 1)) \<le> r2"
    by simp
  with i show ?thesis
    unfolding near_some_segment_def list_ex_iff by auto
qed

lemma surveyed_loop_mono:
  assumes r: "r1 \<le> r2"
    and sub: "set acc1 \<subseteq> set acc2"
    and held: "\<forall>q \<in> set acc2. near_some_segment (m\<lparr>survey_radius := r1\<rparr>) route q \<longrightarrow> q \<in> set acc1"
    and len: "length acc1 \<le> length acc2"
  shows "set (surveyed_loop (m\<lparr>survey_radius := r1\<rparr>) route acc1 objs)
           \<subseteq> set (surveyed_loop (m\<lparr>survey_radius := r2\<rparr>) route acc2 objs)
       \<and> length (surveyed_loop (m\<lparr>survey_radius := r1\<rparr>) route acc1 objs)
           \<le> length (surveyed_loop (m\<lparr>survey_radius := r2\<rparr>) route acc2 objs)"
  using sub held len
proof (induction objs arbitrary: acc1 acc2)
  case Nil
  then show ?case by simp
next
  case (Cons obj objs)
  let ?m1 = "m\<lparr>survey_radius := r1\<rparr>" and ?m2 = "m\<lparr>survey_radius := r2\<rparr>"
  let ?a1 = "if near_some_segment ?m1 route obj then set_add acc1 obj else acc1"
  let ?a2 = "if near_some_segment ?m2 route obj then set_add acc2 obj else acc2"
  have step: "set ?a1 \<subseteq> set ?a2
      \<and> (\<forall>q \<in> set ?a2. near_some_segment ?m1 route q \<longrightarrow> q \<in> set ?a1)
      \<and> length ?a1 \<le> length ?a2"
  proof (cases "near_some_segment ?m1 route obj")
    case n1: True
    then have n2: "near_some_segment ?m2 route obj" using r near_mono by blast
    show ?thesis
    proof (cases "list_ex (same_key obj) acc2")
      case True
      then obtain q where q: "q \<in> set acc2" "same_key obj q" by (auto simp: list_ex_iff)
      with n1 have "near_some_segment ?m1 route q" using same_key_near by blast
      with q Cons.prems(2) have "q \<in> set acc1" by blast
      with q have "list_ex (same_key obj) acc1" by (auto simp: list_ex_iff)
      with True n1 n2 Cons.prems show ?thesis by (simp add: set_add_def)
    next
      case False
      with Cons.prems(1) have "\<not> list_ex (same_key obj) acc1" by (auto simp: list_ex_iff)
      with False n1 n2 Cons.prems show ?thesis by (auto simp: set_add_def)
    qed
  next
    case n1: False
    with Cons.prems show ?thesis by (auto simp: set_add_def)
  qed
  from step show ?case
    using Cons.IH [of ?a1 ?a2] by simp
qed

lemma distance_on_axis:
  "y p = y q \<Longrightarrow> distance_to p q = \<bar>x p - x q\<bar> - 1"
  by (simp add: distance_to_def error_def)

lemmas mono_points = mono_start_def mono_end_def mono_far_def mono_near_def Point_def

lemma mono_x:
  "x mono_start = 0" "x mono_end = 2" "x mono_far = - 5" "x mono_near = - 3" "x (Point v w n) = v"
  "y mono_start = 0" "y mono_end = 0" "y mono_far = 0" "y mono_near = 0" "y (Point v w n) = w"
  by (simp_all add: mono_points)

lemma mono_initial: "greedy_initial_route (map_mono r) = Some [mono_start, mono_near, mono_far, mono_end]"
proof -
  have d: "distance_to mono_start mono_near < distance_to mono_start mono_far"
    by (simp add: distance_on_axis mono_x)
  have pe: "\<not> point_eq mono_far mono_near" "point_eq mono_near mono_near" "point_eq mono_far mono_far"
    by (simp_all add: point_eq_def mono_x)
  have "initial_route_loop [mono_start, mono_near, mono_far] [] mono_far = Some [mono_start, mono_near, mono_far]"
    by (simp add: initial_route_loop.simps)
  then have "initial_route_loop [mono_start, mono_near] [mono_far] mono_near = Some [mono_start, mono_near, mono_far]"
    by (subst initial_route_loop.simps) (simp add: pe)
  then have "initial_route_loop [mono_start] [mono_far, mono_near] mono_start = Some [mono_start, mono_near, mono_far]"
    by (subst initial_route_loop.simps) (simp add: d pe)
  then show ?thesis
    by (simp add: greedy_initial_route_def map_mono_def)
qed

lemma first_improvement_four:
  "first_improvement [a, b, c, d] best =
     (if calculate_route_distance [a, c, b, d] < best then Some [a, c, b, d] else None)"
proof -
  have "two_opt_pairs (length [a, b, c, d]) = [(Suc 0, 2)]"
    by (simp add: two_opt_pairs_def upt_conv_Cons)
  moreover have "reversed_slice [a, b, c, d] (Suc 0) 2 = [a, c, b, d]"
    by (simp add: reversed_slice_def)
  ultimately show ?thesis
    by (simp add: first_improvement_def)
qed

lemma first_improvement_three: "first_improvement [a, b, c] best = None"
  by (simp add: first_improvement_def two_opt_pairs_def)

lemma local_search_2opt_three: "local_search_2opt [a, b, c] = [a, b, c]"
  by (simp add: local_search_2opt_def local_search_loop.simps first_improvement_three)

lemma local_search_2opt_four_stable:
  assumes "\<not> calculate_route_distance [a, c, b, d] < calculate_route_distance [a, b, c, d]"
  shows "local_search_2opt [a, b, c, d] = [a, b, c, d]"
  using assms by (simp add: local_search_2opt_def local_search_loop.simps first_improvement_four)

lemma geometric_optimization_four:
  "geometric_optimization m [a, b, c, d] =
     geometric_step m [a, b, c, d] 2 (geometric_step m [a, b, c, d] (Suc 0) [a, b, c, d])"
  by (simp add: geometric_optimization_def upt_conv_Cons numeral_2_eq_2)

lemma geometric_optimization_three:
  "geometric_optimization m [a, b, c] = geometric_step m [a, b, c] (Suc 0) [a, b, c]"
  by (simp add: geometric_optimization_def upt_conv_Cons)

lemma remove_farthest_point_four:
  "remove_farthest_point m [a, b, c, d] =
     fst (remove_step [a, b, c, d] 2 (remove_step [a, b, c, d] (Suc 0)
            ([a, b, c, d], calculate_route_distance [a, b, c, d])))"
  by (simp add: remove_farthest_point_def upt_conv_Cons numeral_2_eq_2)

lemma remove_farthest_point_three:
  "remove_farthest_point m [a, b, c] = [start_point m, end_point m]"
  by (simp add: remove_farthest_point_def)

lemma axis_route_distance:
  "y a = 0 \<Longrightarrow> y b = 0 \<Longrightarrow> y c = 0 \<Longrightarrow> y d = 0 \<Longrightarrow>
   calculate_route_distance [a, b, c, d] = \<bar>x a - x b\<bar> + \<bar>x b - x c\<bar> + \<bar>x c - x d\<bar> - 3"
  "y a = 0 \<Longrightarrow> y b = 0 \<Longrightarrow> y c = 0 \<Longrightarrow>
   calculate_route_distance [a, b, c] = \<bar>x a - x b\<bar> + \<bar>x b - x c\<bar> - 2"
  "y a = 0 \<Longrightarrow> y b = 0 \<Longrightarrow>
   calculate_route_distance [a, b] = \<bar>x a - x b\<bar> - 1"
  by (simp_all add: calculate_route_distance_def distance_on_axis)

lemma mono_optimize:
  "optimize_point_position (map_mono (1 / 2)) mono_near mono_start mono_far = mono_near"
  "optimize_point_position (map_mono (1 / 2)) mono_far mono_near mono_end = Point (- (9 / 2)) 0 ''''"
  "optimize_point_position (map_mono (1 / 2)) mono_near mono_start mono_end = Point (- (5 / 2)) 0 ''''"
  "optimize_point_position (map_mono 1) mono_far mono_start mono_far = mono_far"
  "optimize_point_position (map_mono 1) mono_far mono_near mono_end = Point (- 4) 0 ''''"
  "optimize_point_position (map_mono 1) mono_far mono_start mono_end = Point (- 4) 0 ''''"
  by (simp_all add: optimize_point_position_def project_point_on_segment_def map_mono_def
      mono_x sqrt_4 sqrt_25 sqrt_9 power2_eq_square)

lemma mono_map [simp]:
  "start_point (map_mono r) = mono_start" "end_point (map_mono r) = mono_end"
  "objects (map_mono r) = [mono_far, mono_near]" "max_distance (map_mono r) = 5"
  "survey_radius (map_mono r) = r"
  by (simp_all add: map_mono_def)

lemma mono_2opt:
  "local_search_2opt [mono_start, mono_near, mono_far, mono_end] = [mono_start, mono_near, mono_far, mono_end]"
  by (rule local_search_2opt_four_stable) (simp add: axis_route_distance mono_x)

lemma mono_half_geo0:
  "geometric_optimization (map_mono (1 / 2)) [mono_start, mono_near, mono_far, mono_end]
     = [mono_start, mono_near, Point (- (9 / 2)) 0 '''', mono_end]"
  by (simp add: geometric_optimization_four geometric_step_def mono_optimize distance_on_axis mono_x)

lemma mono_half_remove:
  "remove_farthest_point (map_mono (1 / 2)) [mono_start, mono_near, Point (- (9 / 2)) 0 '''', mono_end]
     = [mono_start, mono_near, mono_end]"
  by (simp add: remove_farthest_point_four remove_step_def axis_route_distance mono_x)

lemma mono_half_geo1:
  "geometric_optimization (map_mono (1 / 2)) [mono_start, mono_near, mono_end]
     = [mono_start, Point (- (5 / 2)) 0 '''', mono_end]"
  by (simp add: geometric_optimization_three geometric_step_def mono_optimize distance_on_axis mono_x)

lemma mono_half_loop:
  "heuristic_loop (map_mono (1 / 2)) 0 [mono_start, mono_near, mono_far, mono_end]
     = [mono_start, Point (- (5 / 2)) 0 '''', mono_end]"
proof -
  have "heuristic_loop (map_mono (1 / 2)) 1 [mono_start, mono_near, mono_end]
     = [mono_start, Point (- (5 / 2)) 0 '''', mono_end]"
    by (subst heuristic_loop.simps)
       (simp add: max_iterations_def local_search_2opt_three mono_half_geo1 axis_route_distance mono_x)
  then show ?thesis
    by (subst heuristic_loop.simps)
       (simp add: max_iterations_def mono_2opt mono_half_geo0 mono_half_remove axis_route_distance mono_x)
qed

lemma mono_one_geo0:
  "geometric_optimization (map_mono 1) [mono_start, mono_near, mono_far, mono_end]
     = [mono_start, mono_near, Point (- 4) 0 '''', mono_end]"
  by (simp add: geometric_optimization_four geometric_step_def mono_optimize distance_on_axis mono_x)

lemma mono_one_remove:
  "remove_farthest_point (map_mono 1) [mono_start, mono_near, Point (- 4) 0 '''', mono_end]
     = [mono_start, mono_near, mono_end]"
  by (simp add: remove_farthest_point_four remove_step_def axis_route_distance mono_x)

lemma mono_one_geo1:
  "geometric_optimization (map_mono 1) [mono_start, mono_near, mono_end]
     = [mono_start, mono_near, mono_end]"
  by (simp add: geometric_optimization_three geometric_step_def mono_optimize distance_on_axis mono_x)

lemma mono_one_loop:
  "heuristic_loop (map_mono 1) 0 [mono_start, mono_near, mono_far, mono_end]
     = [mono_start, mono_end]"
proof -
  have "heuristic_loop (map_mono 1) 1 [mono_start, mono_near, mono_end] = [mono_start, mono_end]"
    by (subst heuristic_loop.simps)
       (simp add: max_iterations_def local_search_2opt_three mono_one_geo1 axis_route_distance mono_x
          remove_farthest_point_three)
  then show ?thesis
    by (subst heuristic_loop.simps)
       (simp add: max_iterations_def mono_2opt mono_one_geo0 mono_one_remove axis_route_distance mono_x)
qed

lemma upt_0_4: "[0 ..< 4] = [0, Suc 0, 2, 3]"
  by (simp add: upt_conv_Cons numeral_2_eq_2 numeral_3_eq_3)

lemma upt_0_3: "[0 ..< 3] = [0, Suc 0, 2]"
  by (simp add: upt_conv_Cons numeral_2_eq_2)

lemma segment_on_axis:
  "y p = 0 \<Longrightarrow> y a = 0 \<Longrightarrow> y b = 0 \<Longrightarrow>
   distance_point_to_segment p a b =
     (if x b = x a then \<bar>x p - x a\<bar> - 1
      else \<bar>x p - (x a + max 0 (min 1 (((x p - x a) * (x b - x a)) / ((x b - x a) * (x b - x a)))) * (x b - x a))\<bar> - 1)"
  by (simp add: distance_point_to_segment_def Let_def distance_on_axis mono_x)

lemma mono_half_surveyed:
  "get_surveyed_objects (map_mono (1 / 2)) [mono_start, Point (- (5 / 2)) 0 '''', mono_end] = [mono_near]"
  by (simp add: get_surveyed_objects_def near_some_segment_def upt_0_4 segment_on_axis mono_x
      set_add_def)

lemma mono_one_surveyed:
  "get_surveyed_objects (map_mono 1) [mono_start, mono_end] = []"
  by (simp add: get_surveyed_objects_def near_some_segment_def upt_0_3 segment_on_axis mono_x
      set_add_def)

lemma mono_valid: "validate (map_mono (1 / 2))" "validate (map_mono 1)"
  by (simp_all add: validate_def point_eq_def distance_on_axis mono_x)

lemmas rr_points = rr_start_def rr_end_def rr_a_def rr_b_def rr_c_def Point_def

lemma rr_sqrts:
  "sqrt (9 / 4) = 3 / 2" "sqrt (25 / 4) = 5 / 2" "sqrt (49 / 4) = 7 / 2" "sqrt (121 / 4) = 11 / 2"
  "sqrt (1 / 4) = 1 / 2" "sqrt (81 / 4) = 9 / 2" "sqrt 16 = 4"
  by (rule sqrt_rat; simp)+

lemma rr_dist:
  "distance_to rr_start rr_a = 2"
  "distance_to rr_start rr_b = 3"
  "distance_to rr_start rr_c = 5 / 2"
  "distance_to rr_start rr_end = 3 / 2"
  "distance_to rr_start rr_start = - 1"
  "distance_to rr_start (Point 2 0 '''') = 1"
  "distance_to rr_start (Point (- (3 / 2)) 0 '''') = 1 / 2"
  "distance_to (Point 2 0 '''') rr_a = 0"
  "distance_to (Point 2 0 '''') rr_b = 1"
  "distance_to (Point 2 0 '''') rr_c = 9 / 2"
  "distance_to (Point 2 0 '''') rr_end = 1 / 2"
  "distance_to (Point 2 0 '''') (Point (- (5 / 2)) 0 '''') = 7 / 2"
  by (simp_all add: distance_to_def error_def rr_points power2_eq_square rr_sqrts sqrt_4 sqrt_9 sqrt_25)

lemma rr_far:
  "5 / 2 < distance_to (Point (- (3 / 2)) 0 '''') rr_end"
  "- 1 \<le> distance_to (Point (- (5 / 2)) 0 '''') rr_end"
proof -
  have "(7 / 2 :: real) < sqrt (29 / 2)"
    by (rule real_less_rsqrt) (simp add: power2_eq_square)
  then show "5 / 2 < distance_to (Point (- (3 / 2)) 0 '''') rr_end"
    by (simp add: distance_to_def error_def rr_points power2_eq_square)
  show "- 1 \<le> distance_to (Point (- (5 / 2)) 0 '''') rr_end"
    by (simp add: distance_to_def error_def)
qed

lemma rr_intersections:
  "find_intersection_with_circle rr_start rr_a rr_a 2 = Some rr_start"
  "find_intersection_with_circle rr_start rr_c rr_c 2 = Some (Point (- (3 / 2)) 0 '''')"
  "find_intersection_with_circle rr_start rr_a rr_a 1 = Some (Point 2 0 '''')"
  "find_intersection_with_circle (Point 2 0 '''') rr_c rr_c 1 = Some (Point (- (5 / 2)) 0 '''')"
  by (simp_all add: find_intersection_with_circle_def distance_to_def error_def rr_points
      power2_eq_square rr_sqrts sqrt_4 sqrt_9 sqrt_25)

lemma rr_path:
  "point_to_line_distance rr_b rr_start rr_end = 5 / 2"
  "point_to_line_distance rr_c rr_start rr_end = 7 / 2"
  "point_to_line_distance rr_c (Point 2 0 '''') rr_end = 11 / 2"
  by (simp_all add: point_to_line_distance_def distance_to_def error_def rr_points
      power2_eq_square rr_sqrts sqrt_4 sqrt_9 sqrt_25)

lemma rr_map:
  "start_point (map_rerun r) = rr_start" "end_point (map_rerun r) = rr_end"
  "objects (map_rerun r) = [rr_a, rr_b, rr_c]" "max_distance (map_rerun r) = 2"
  "survey_radius (map_rerun r) = r"
  by (simp_all add: map_rerun_def)

lemma rr_keys:
  "\<not> same_key rr_a rr_b" "\<not> same_key rr_a rr_c" "\<not> same_key rr_b rr_c"
  "\<not> same_key rr_b rr_a" "\<not> same_key rr_c rr_a" "\<not> same_key rr_c rr_b"
  "same_key rr_a rr_a" "same_key rr_b rr_b" "same_key rr_c rr_c"
  by (simp_all add: same_key_def rr_points)

lemma rr_py_set: "py_set (objects (map_rerun r)) = [rr_a, rr_b, rr_c]"
  by (simp add: py_set_def rr_map set_add_def rr_keys)

lemma rr_wide_step_1:
  "greedy_step (map_rerun 2) (greedy_initial_state (map_rerun 2) [rr_a, rr_b, rr_c]) = Some rr_wide_1"
  by (simp add: greedy_step_def greedy_initial_state_def rr_map rr_dist rr_intersections
      set_add_def set_remove_def rr_keys rr_wide_1_def)

lemma rr_wide_step_2: "greedy_step (map_rerun 2) rr_wide_1 = None"
  using rr_far(1)
  by (simp add: greedy_step_def rr_wide_1_def rr_map rr_dist rr_intersections)

lemma rr_wide_loop:
  "greedy_loop (map_rerun 2) (greedy_initial_state (map_rerun 2) [rr_a, rr_b, rr_c]) = Some rr_wide_1"
proof -
  have g0: "loop_guard (map_rerun 2) (greedy_initial_state (map_rerun 2) [rr_a, rr_b, rr_c])"
    by (simp add: loop_guard_def greedy_initial_state_def rr_map rr_dist)
  have g1: "loop_guard (map_rerun 2) rr_wide_1"
    by (simp add: loop_guard_def rr_wide_1_def rr_map rr_dist)
  have "greedy_loop (map_rerun 2) rr_wide_1 = Some rr_wide_1"
    by (subst greedy_loop.simps) (simp add: g1 rr_wide_step_2)
  then show ?thesis
    by (subst greedy_loop.simps) (simp add: g0 rr_wide_step_1)
qed

lemma rr_wide_result:
  "GreedySolver_solve (map_rerun 2) = Some ([rr_start, rr_start, rr_end], [rr_a], 1 / 2)"
proof -
  have "greedy_finish (map_rerun 2) rr_wide_1 = ([rr_start, rr_start, rr_end], [rr_a], 1 / 2)"
    by (simp add: greedy_finish_def rr_wide_1_def rr_map rr_dist rr_path calculate_route_distance_def)
  then have "greedy_solve_from (map_rerun 2) [rr_a, rr_b, rr_c]
      = Some ([rr_start, rr_start, rr_end], [rr_a], 1 / 2)"
    by (simp add: greedy_solve_from_def rr_wide_loop)
  then show ?thesis
    by (simp add: GreedySolver_solve_def rr_py_set)
qed

lemma rr_narrow_step_1:
  "greedy_step (map_rerun 1) (greedy_initial_state (map_rerun 1) [rr_a, rr_b, rr_c]) = Some rr_narrow_1"
  by (simp add: greedy_step_def greedy_initial_state_def rr_map rr_dist rr_intersections
      set_add_def set_remove_def rr_keys rr_narrow_1_def)

lemma rr_narrow_step_2: "greedy_step (map_rerun 1) rr_narrow_1 = None"
  using rr_far(2)
  by (simp add: greedy_step_def rr_narrow_1_def rr_map rr_dist rr_intersections)

lemma rr_narrow_loop:
  "greedy_loop (map_rerun 1) (greedy_initial_state (map_rerun 1) [rr_a, rr_b, rr_c]) = Some rr_narrow_1"
proof -
  have g0: "loop_guard (map_rerun 1) (greedy_initial_state (map_rerun 1) [rr_a, rr_b, rr_c])"
    by (simp add: loop_guard_def greedy_initial_state_def rr_map rr_dist)
  have g1: "loop_guard (map_rerun 1) rr_narrow_1"
    by (simp add: loop_guard_def rr_narrow_1_def rr_map rr_dist)
  have "greedy_loop (map_rerun 1) rr_narrow_1 = Some rr_narrow_1"
    by (subst greedy_loop.simps) (simp add: g1 rr_narrow_step_2)
  then show ?thesis
    by (subst greedy_loop.simps) (simp add: g0 rr_narrow_step_1)
qed

lemma rr_narrow_result:
  "GreedySolver_solve (map_rerun 1)
     = Some ([rr_start, Point 2 0 '''', rr_end], [rr_a, rr_b], 3 / 2)"
proof -
  have "greedy_finish (map_rerun 1) rr_narrow_1
      = ([rr_start, Point 2 0 '''', rr_end], [rr_a, rr_b], 3 / 2)"
    by (simp add: greedy_finish_def rr_narrow_1_def rr_map rr_dist rr_path calculate_route_distance_def)
  then have "greedy_solve_from (map_rerun 1) [rr_a, rr_b, rr_c]
      = Some ([rr_start, Point 2 0 '''', rr_end], [rr_a, rr_b], 3 / 2)"
    by (simp add: greedy_solve_from_def rr_narrow_loop)
  then show ?thesis
    by (simp add: GreedySolver_solve_def rr_py_set)
qed

lemma rr_valid: "validate (map_rerun 1)" "validate (map_rerun 2)"
  by (simp_all add: validate_def rr_map rr_dist) (simp_all add: point_eq_def rr_points)

text \<open>
  Claim C8, as it is written, extends the monotonicity to running a solver again with a
  larger radius.  Both solvers refute this on maps that pass \<open>validate\<close> for both
  radii.  On the map with start \<open>(0, 0)\<close>, end \<open>(2, 1.5)\<close>, budget 2 and the objects
  \<open>(3, 0)\<close>, \<open>(4, 0)\<close> and \<open>(-3.5, 0)\<close> the greedy solver surveys two objects with radius 1
  and one with radius 2.  On the map with start \<open>(0, 0)\<close>, end \<open>(2, 0)\<close>, budget 5 and
  the objects \<open>(-5, 0)\<close> and \<open>(-3, 0)\<close> the heuristic solver surveys one object with
  radius 1/2 and none with radius 1.
\<close>

theorem solver_rerun_counterexample:
  "validate (map_rerun 1) \<and> validate (map_rerun 2)
   \<and> GreedySolver_solve (map_rerun 1)
       = Some ([rr_start, Point 2 0 '''', rr_end], [rr_a, rr_b], 3 / 2)
   \<and> GreedySolver_solve (map_rerun 2) = Some ([rr_start, rr_start, rr_end], [rr_a], 1 / 2)
   \<and> \<not> ((case GreedySolver_solve (map_rerun 1) of
             None \<Rightarrow> 0 | Some (route, surveyed, total_distance) \<Rightarrow> length surveyed)
          \<le> (case GreedySolver_solve (map_rerun 2) of
             None \<Rightarrow> 0 | Some (route, surveyed, total_distance) \<Rightarrow> length surveyed))
   \<and> validate (map_mono (1 / 2)) \<and> validate (map_mono 1)
   \<and> HeuristicSolver_solve (map_mono (1 / 2))
       = Some ([mono_start, Point (- (5 / 2)) 0 '''', mono_end], [mono_near], 5)
   \<and> HeuristicSolver_solve (map_mono 1) = Some ([mono_start, mono_end], [], 1)
   \<and> \<not> ((case HeuristicSolver_solve (map_mono (1 / 2)) of
             None \<Rightarrow> 0 | Some (route, surveyed, total_distance) \<Rightarrow> length surveyed)
          \<le> (case HeuristicSolver_solve (map_mono 1) of
             None \<Rightarrow> 0 | Some (route, surveyed, total_distance) \<Rightarrow> length surveyed))"
proof -
  have h: "HeuristicSolver_solve (map_mono (1 / 2))
       = Some ([mono_start, Point (- (5 / 2)) 0 '''', mono_end], [mono_near], 5)"
    by (simp add: HeuristicSolver_solve_def Let_def mono_initial mono_half_loop
        mono_half_surveyed axis_route_distance mono_x)
  have o: "HeuristicSolver_solve (map_mono 1) = Some ([mono_start, mono_end], [], 1)"
    by (simp add: HeuristicSolver_solve_def Let_def mono_initial mono_one_loop
        mono_one_surveyed axis_route_distance mono_x)
  show ?thesis
    by (simp add: h o mono_valid rr_valid rr_narrow_result rr_wide_result)
qed

text \<open>
  Claim C8, amended: for any fixed route and any map, the objects that
  \<open>get_surveyed_objects\<close> returns with radius \<open>r1\<close> are among those it returns with
  radius \<open>r2\<close> whenever \<open>r1 \<le> r2\<close>, so their number does not decrease.  (This is a
  property of the coverage test on one route; it does not carry over to the routes that
  a solver builds for the two radii.)
\<close>

theorem surveyed_monotone_for_fixed_route:
  assumes "r1 \<le> r2"
  shows "set (get_surveyed_objects (m\<lparr>survey_radius := r1\<rparr>) route)
           \<subseteq> set (get_surveyed_objects (m\<lparr>survey_radius := r2\<rparr>) route)
       \<and> length (get_surveyed_objects (m\<lparr>survey_radius := r1\<rparr>) route)
           \<le> length (get_surveyed_objects (m\<lparr>survey_radius := r2\<rparr>) route)"
  using surveyed_loop_mono [OF assms, of "[]" "[]" m
      "[start_point m] @ route @ [end_point m]" "objects m"]
  by (simp add: get_surveyed_objects_def)

theorem surveyed_monotone_for_fixed_route_witness:
  "(1 / 2 :: real) \<le> 1
   \<and> set (get_surveyed_objects ((map_mono 0)\<lparr>survey_radius := 1 / 2\<rparr>) [mono_start, mono_end])
       \<subseteq> set (get_surveyed_objects ((map_mono 0)\<lparr>survey_radius := 1\<rparr>) [mono_start, mono_end])
   \<and> length (get_surveyed_objects ((map_mono 0)\<lparr>survey_radius := 1 / 2\<rparr>) [mono_start, mono_end])
       \<le> length (get_surveyed_objects ((map_mono 0)\<lparr>survey_radius := 1\<rparr>) [mono_start, mono_end])"
proof -
  have r: "(1 / 2 :: real) \<le> 1" by simp
  from surveyed_monotone_for_fixed_route [OF r, of "map_mono 0" "[mono_start, mono_end]"] r
  show ?thesis by blast
qed

section \<open>The coverage test of the final leg\<close>

lemmas leg_points = leg_start_def leg_end_def leg_object_def Point_def

lemma leg_dist:
  "distance_to leg_start leg_end = 1"
  "distance_to leg_start leg_object = 11 / 4"
  "distance_to leg_start (Point (11 / 4) 0 '''') = 7 / 4"
  "distance_to (Point (11 / 4) 0 '''') leg_end = - (1 / 4)"
  "distance_to leg_object leg_start = 11 / 4"
  "distance_to leg_object leg_end = 3 / 4"
  by (simp_all add: distance_to_def error_def leg_points)

lemma leg_map:
  "start_point map_leg = leg_start" "end_point map_leg = leg_end"
  "objects map_leg = [leg_object]" "max_distance map_leg = 5 / 4" "survey_radius map_leg = 1"
  by (simp_all add: map_leg_def)

lemma leg_valid: "validate map_leg"
  by (simp add: validate_def leg_map leg_dist) (simp add: point_eq_def leg_points)

lemma leg_entry:
  "find_intersection_with_circle leg_start leg_object leg_object 1 = Some (Point (11 / 4) 0 '''')"
  by (simp add: find_intersection_with_circle_def Let_def leg_dist) (simp add: leg_points)

lemma leg_step: "greedy_step map_leg (greedy_initial_state map_leg [leg_object]) = None"
  by (simp add: greedy_step_def greedy_initial_state_def leg_map leg_entry leg_dist Let_def)

lemma leg_loop:
  "greedy_loop map_leg (greedy_initial_state map_leg [leg_object])
     = Some (greedy_initial_state map_leg [leg_object])"
  by (subst greedy_loop.simps) (simp add: leg_step)

lemma leg_line: "point_to_line_distance leg_object leg_start leg_end = 7 / 4"
  by (simp add: point_to_line_distance_def Let_def leg_dist) (simp add: leg_points)

lemma leg_segment: "distance_point_to_segment leg_object leg_start leg_end = 3 / 4"
  by (simp add: distance_point_to_segment_def Let_def distance_to_def error_def leg_points)

lemma leg_greedy: "GreedySolver_solve map_leg = Some ([leg_start, leg_end], [], 1)"
proof -
  have "greedy_finish map_leg (greedy_initial_state map_leg [leg_object])
      = ([leg_start, leg_end], [], 1)"
    by (simp add: greedy_finish_def greedy_initial_state_def leg_map leg_dist leg_line
        route_distance_pair)
  then have "greedy_solve_from map_leg [leg_object] = Some ([leg_start, leg_end], [], 1)"
    by (simp add: greedy_solve_from_def leg_loop)
  then show ?thesis
    by (simp add: GreedySolver_solve_def leg_map py_set_singleton)
qed

lemma leg_surveyed: "get_surveyed_objects map_leg [leg_start, leg_end] = [leg_object]"
  by (simp add: get_surveyed_objects_def leg_map near_some_segment_def upt_0_3 leg_segment set_add_def
       numeral_3_eq_3)


lemma leg_initial: "greedy_initial_route map_leg = Some [leg_start, leg_object, leg_end]"
proof -
  have pe: "point_eq leg_object leg_object"
    by (simp add: point_eq_def)
  have "initial_route_loop [leg_start, leg_object] [] leg_object = Some [leg_start, leg_object]"
    by (simp add: initial_route_loop.simps)
  then have "initial_route_loop [leg_start] [leg_object] leg_start = Some [leg_start, leg_object]"
    by (subst initial_route_loop.simps) (simp add: pe)
  then show ?thesis
    by (simp add: greedy_initial_route_def leg_map)
qed

lemma leg_optimize:
  "optimize_point_position map_leg leg_object leg_start leg_end = Point (11 / 4) 0 ''''"
  using real_sqrt_abs [of "7 / 4"]
  by (simp add: optimize_point_position_def project_point_on_segment_def leg_map leg_points
      power2_eq_square)

lemma leg_geo:
  "geometric_optimization map_leg [leg_start, leg_object, leg_end]
     = [leg_start, Point (11 / 4) 0 '''', leg_end]"
proof -
  have "distance_to leg_object leg_object \<le> 1"
    by (simp add: distance_to_def error_def)
  then show ?thesis
    by (simp add: geometric_optimization_three geometric_step_def leg_map leg_optimize leg_dist)
qed

lemma leg_loop_heuristic:
  "heuristic_loop map_leg 0 [leg_start, leg_object, leg_end] = [leg_start, leg_end]"
  by (subst heuristic_loop.simps)
     (simp add: max_iterations_def local_search_2opt_three leg_geo leg_map leg_dist
        calculate_route_distance_def remove_farthest_point_three)

lemma leg_heuristic: "HeuristicSolver_solve map_leg = Some ([leg_start, leg_end], [leg_object], 1)"
  by (simp add: HeuristicSolver_solve_def leg_initial leg_loop_heuristic leg_surveyed
      route_distance_pair leg_dist)

text \<open>
  Claim C5: \<open>distance_to a b\<close> is the Euclidean distance between the coordinates minus
  \<open>error a\<close>, the constant 1, and this biased distance is the one of every coverage
  test.  The first part holds.  The second fails in the greedy solver's test of the
  objects along the final leg: \<open>point_to_line_distance\<close> returns the plain Euclidean
  distance to the nearest point of the leg, although it returns the biased distance
  when the leg has length zero, and although \<open>distance_point_to_segment\<close> subtracts
  the error for the same geometry.  On the map with start \<open>(0, 0)\<close>, end \<open>(2, 0)\<close>,
  budget 1.25, radius 1 and the object \<open>(3.75, 0)\<close>, which passes \<open>validate\<close>, the
  greedy loop stops before its first detour (the detour needs 1.5), the test of the
  final leg compares 1.75 with the radius and the solver reports nothing surveyed.  The
  biased distance from the object to the leg is 0.75: \<open>get_surveyed_objects\<close> and the
  heuristic solver report the object as surveyed for the same route.
\<close>

theorem greedy_final_leg_unbiased:
  "distance_to a b = sqrt ((x a - x b)\<^sup>2 + (y a - y b)\<^sup>2) - error a
   \<and> error a = 1
   \<and> validate map_leg
   \<and> greedy_loop map_leg (greedy_initial_state map_leg [leg_object])
       = Some (greedy_initial_state map_leg [leg_object])
   \<and> point_to_line_distance leg_object leg_start leg_end = 7 / 4
   \<and> distance_point_to_segment leg_object leg_start leg_end = 3 / 4
   \<and> survey_radius map_leg = 1
   \<and> GreedySolver_solve map_leg = Some ([leg_start, leg_end], [], 1)
   \<and> get_surveyed_objects map_leg [leg_start, leg_end] = [leg_object]
   \<and> HeuristicSolver_solve map_leg = Some ([leg_start, leg_end], [leg_object], 1)"
  by (simp add: distance_to_def error_def leg_valid leg_loop leg_line leg_segment leg_map
      leg_greedy leg_surveyed leg_heuristic)

end
